theory Spec2Isabelle
  imports Main "HOL-Library.Word" "HOL-Library.Multiset" "HOL-Library.Sublist"
    "HOL-Library.Signed_Division"
begin

unbundle bit_operations_syntax

section \<open>Go strings and run-time panics\<close>

text \<open>
  A Go string is a sequence of bytes; \<open>len\<close> counts bytes and \<open>s[i]\<close> reads one byte.
  It is modelled by \<open>string\<close> (a list of 8-bit characters). Indexing and slicing out of
  range panic in Go, so every function that indexes returns \<open>panic + 'a\<close>.
\<close>

datatype panic =
  IndexOutOfRange | SliceBoundsOutOfRange | MakeSliceLenOutOfRange | NilPointerDereference

definition byte_of :: "char \<Rightarrow> 8 word" where
  "byte_of c = of_char c"

section \<open>internal/textutil: Truncate\<close>

text \<open>The loop test \<open>s[cut]>>6 == 0b10\<close>: the byte is a UTF-8 continuation byte.\<close>

definition is_continuation :: "char \<Rightarrow> bool" where
  "is_continuation c \<longleftrightarrow> drop_bit 6 (byte_of c) = 2"

text \<open>
  \<open>for cut > 0 && s[cut]>>6 == 0b10 { cut-- }\<close>, started at \<open>cut\<close>; the read \<open>s[cut]\<close>
  panics when \<open>cut\<close> is not below \<open>len(s)\<close>.
\<close>

fun walk_back :: "string \<Rightarrow> nat \<Rightarrow> panic + nat" where
  "walk_back s 0 = Inr 0"
| "walk_back s (Suc c) =
     (if length s \<le> Suc c then Inl IndexOutOfRange
      else if is_continuation (s ! Suc c) then walk_back s c
      else Inr (Suc c))"

text \<open>
  \<open>Truncate(s, maxLen, suffix)\<close>. With a negative \<open>maxLen\<close> the loop is not entered and
  the slice \<open>s[:cut]\<close> panics.
\<close>

definition Truncate :: "string \<Rightarrow> int \<Rightarrow> string \<Rightarrow> panic + string" where
  "Truncate s maxLen sfx =
     (if int (length s) \<le> maxLen then Inr s
      else if maxLen < 0 then Inl SliceBoundsOutOfRange
      else (case walk_back s (nat maxLen) of
              Inl e \<Rightarrow> Inl e
            | Inr c \<Rightarrow> Inr (take c s @ sfx)))"

text \<open>Truncating the result of a truncation again, with the same budget and suffix.\<close>

definition Truncate_twice :: "string \<Rightarrow> int \<Rightarrow> string \<Rightarrow> panic + string" where
  "Truncate_twice s maxLen sfx =
     (case Truncate s maxLen sfx of
        Inl e \<Rightarrow> Inl e
      | Inr r \<Rightarrow> Truncate r maxLen sfx)"

text \<open>
  A multi-byte sequence of \<open>s\<close> occupying the positions \<open>i, ..., j - 1\<close>: a first byte
  followed by continuation bytes only.
\<close>

definition mb_seq :: "string \<Rightarrow> nat \<Rightarrow> nat \<Rightarrow> bool" where
  "mb_seq s i j \<longleftrightarrow> i < j \<and> j \<le> length s \<and> (\<forall>k \<in> {Suc i..<j}. is_continuation (s ! k))"

text \<open>The test input \<open>"a\xf0\x9f\x98\x80b"\<close>.\<close>

definition emoji_input :: string where
  "emoji_input = [CHR ''a'', CHR 0xF0, CHR 0x9F, CHR 0x98, CHR 0x80, CHR ''b'']"

text \<open>The test input \<open>"ab\xc3\xa9cd"\<close>.\<close>

definition eacute_input :: string where
  "eacute_input = [CHR ''a'', CHR ''b'', CHR 0xC3, CHR 0xA9, CHR ''c'', CHR ''d'']"

section \<open>internal/benchmark: SplitReviews\<close>

text \<open>
  \<open>ghcrawl.ReviewComment\<close>, \<open>ghcrawl.RepoData\<close> and \<open>ghcrawl.CrawlResult\<close>. A time is
  an integer (Unix nanoseconds). The fields of \<open>RepoData\<close> and \<open>CrawlResult\<close> that
  \<open>SplitReviews\<close> neither reads nor writes are carried by the records' extension part.
\<close>

record ReviewComment =
  Repo :: string
  Body :: string
  Path :: string
  DiffHunk :: string
  Date :: int

record RepoData =
  Name :: string
  FullName :: string
  ReviewComments :: "ReviewComment list"

record CrawlResult =
  Repos :: "RepoData list"

record HeldOutReview =
  RepoFullName :: string
  HBody :: string
  HPath :: string
  HDiffHunk :: string

text \<open>The literal \<open>HeldOutReview{RepoFullName: repo.FullName, Body: rc.Body, ...}\<close>.\<close>

definition heldOutOf :: "string \<Rightarrow> ReviewComment \<Rightarrow> HeldOutReview" where
  "heldOutOf fullName rc =
     \<lparr>RepoFullName = fullName, HBody = Body rc, HPath = Path rc, HDiffHunk = DiffHunk rc\<rparr>"

text \<open>
  The inner loop over \<open>repo.ReviewComments\<close>: the state is \<open>heldOut\<close> (shared by all
  repositories) and \<open>kept\<close>; both grow by \<open>append\<close>.
\<close>

fun splitComments ::
  "int \<Rightarrow> string \<Rightarrow> ReviewComment list \<Rightarrow> HeldOutReview list \<times> ReviewComment list
     \<Rightarrow> HeldOutReview list \<times> ReviewComment list" where
  "splitComments mx fullName [] (heldOut, kept) = (heldOut, kept)"
| "splitComments mx fullName (rc # rcs) (heldOut, kept) =
     (if int (length heldOut) < mx \<and> DiffHunk rc \<noteq> []
      then splitComments mx fullName rcs (heldOut @ [heldOutOf fullName rc], kept)
      else splitComments mx fullName rcs (heldOut, kept @ [rc]))"

text \<open>
  The outer loop over \<open>data.Repos\<close>: each repository's list is replaced by its \<open>kept\<close>
  (which starts empty for every repository).
\<close>

fun splitRepos ::
  "int \<Rightarrow> RepoData list \<Rightarrow> HeldOutReview list \<Rightarrow> HeldOutReview list \<times> RepoData list" where
  "splitRepos mx [] heldOut = (heldOut, [])"
| "splitRepos mx (repo # repos) heldOut =
     (case splitComments mx (FullName repo) (ReviewComments repo) (heldOut, []) of
        (heldOut', kept) \<Rightarrow>
          (case splitRepos mx repos heldOut' of
             (heldOut'', repos') \<Rightarrow> (heldOut'', repo\<lparr>ReviewComments := kept\<rparr> # repos')))"

text \<open>\<open>SplitReviews(data, max)\<close> returns the held-out reviews and the mutated \<open>data\<close>.\<close>

definition SplitReviews :: "CrawlResult \<Rightarrow> int \<Rightarrow> HeldOutReview list \<times> CrawlResult" where
  "SplitReviews data mx =
     (case splitRepos mx (Repos data) [] of
        (heldOut, repos') \<Rightarrow> (heldOut, data\<lparr>Repos := repos'\<rparr>))"

text \<open>
  The held-out reviews that a list of removed comments per repository stands for, in the
  order of the repositories.
\<close>

definition heldOutFrom :: "RepoData list \<Rightarrow> ReviewComment list list \<Rightarrow> HeldOutReview list" where
  "heldOutFrom repos removed =
     concat (map (\<lambda>(repo, rm). map (heldOutOf (FullName repo)) rm) (zip repos removed))"

text \<open>
  What the call does to one repository: only the review-comment list changes, the list
  before the call is the kept comments together with the removed ones, both in their
  original order, and every removed comment has a non-empty diff hunk.
\<close>

definition repo_split :: "RepoData \<Rightarrow> RepoData \<Rightarrow> ReviewComment list \<Rightarrow> bool" where
  "repo_split repo repo' rm \<longleftrightarrow>
     repo' = repo\<lparr>ReviewComments := ReviewComments repo'\<rparr>
     \<and> mset (ReviewComments repo) = mset (ReviewComments repo') + mset rm
     \<and> subseq (ReviewComments repo') (ReviewComments repo)
     \<and> subseq rm (ReviewComments repo)
     \<and> (\<forall>c \<in> set rm. DiffHunk c \<noteq> [])"

text \<open>A crawl result with two repositories and four review comments, one without a hunk.\<close>

definition rc_example :: "string \<Rightarrow> string \<Rightarrow> int \<Rightarrow> ReviewComment" where
  "rc_example body hunk t =
     \<lparr>Repo = ''u/a'', Body = body, Path = ''main.go'', DiffHunk = hunk, Date = t\<rparr>"

definition split_example :: CrawlResult where
  "split_example =
     \<lparr>Repos =
        [\<lparr>Name = ''a'', FullName = ''u/a'',
          ReviewComments = [rc_example ''one'' ''@@ 1'' 1, rc_example ''two'' [] 2,
                            rc_example ''three'' ''@@ 3'' 3]\<rparr>,
         \<lparr>Name = ''b'', FullName = ''u/b'',
          ReviewComments = [rc_example ''four'' ''@@ 4'' 4]\<rparr>]\<rparr>"

definition split_example_after :: CrawlResult where
  "split_example_after =
     \<lparr>Repos =
        [\<lparr>Name = ''a'', FullName = ''u/a'', ReviewComments = [rc_example ''two'' [] 2]\<rparr>,
         \<lparr>Name = ''b'', FullName = ''u/b'',
          ReviewComments = [rc_example ''four'' ''@@ 4'' 4]\<rparr>]\<rparr>"

definition split_example_heldOut :: "HeldOutReview list" where
  "split_example_heldOut =
     [heldOutOf ''u/a'' (rc_example ''one'' ''@@ 1'' 1),
      heldOutOf ''u/a'' (rc_example ''three'' ''@@ 3'' 3)]"

text \<open>A repository in which the same review comment occurs twice.\<close>

definition dup_comment :: ReviewComment where
  "dup_comment = rc_example ''nit: typo'' ''@@ 1'' 1"

definition dup_example :: CrawlResult where
  "dup_example =
     \<lparr>Repos = [\<lparr>Name = ''a'', FullName = ''u/a'',
                 ReviewComments = [dup_comment, dup_comment]\<rparr>]\<rparr>"

definition dup_example_after :: CrawlResult where
  "dup_example_after =
     \<lparr>Repos = [\<lparr>Name = ''a'', FullName = ''u/a'', ReviewComments = [dup_comment]\<rparr>]\<rparr>"

section \<open>String helpers of the Go library\<close>

text \<open>
  \<open>strings.TrimSpace\<close> removes leading and trailing white space. The model removes the
  ASCII white space (tab, line feed, vertical tab, form feed, carriage return, space);
  Go also removes the multi-byte Unicode spaces, which none of the inputs below contains.
\<close>

definition isSpace :: "char \<Rightarrow> bool" where
  "isSpace c \<longleftrightarrow> c \<in> set [CHR 0x09, CHR 0x0A, CHR 0x0B, CHR 0x0C, CHR 0x0D, CHR '' '']"

definition TrimSpace :: "string \<Rightarrow> string" where
  "TrimSpace s = rev (dropWhile isSpace (rev (dropWhile isSpace s)))"

text \<open>\<open>strings.Index(s, sub)\<close>: the first position where \<open>sub\<close> occurs in \<open>s\<close>, or \<open>-1\<close>.\<close>

fun indexFrom :: "string \<Rightarrow> string \<Rightarrow> int \<Rightarrow> int" where
  "indexFrom [] sub i = (if sub = [] then i else - 1)"
| "indexFrom (c # cs) sub i = (if prefix sub (c # cs) then i else indexFrom cs sub (i + 1))"

definition Index :: "string \<Rightarrow> string \<Rightarrow> int" where
  "Index s sub = indexFrom s sub 0"

text \<open>\<open>strings.LastIndex(s, sub)\<close>: the last position where \<open>sub\<close> occurs, or \<open>-1\<close>.\<close>

fun lastIndexFrom :: "string \<Rightarrow> string \<Rightarrow> int \<Rightarrow> int \<Rightarrow> int" where
  "lastIndexFrom [] sub i best = (if sub = [] then i else best)"
| "lastIndexFrom (c # cs) sub i best =
     lastIndexFrom cs sub (i + 1) (if prefix sub (c # cs) then i else best)"

definition LastIndex :: "string \<Rightarrow> string \<Rightarrow> int" where
  "LastIndex s sub = lastIndexFrom s sub 0 (- 1)"

definition TrimPrefix :: "string \<Rightarrow> string \<Rightarrow> string" where
  "TrimPrefix s p = (if prefix p s then drop (length p) s else s)"

definition backticks :: string where
  "backticks = [CHR 0x60, CHR 0x60, CHR 0x60]"

text \<open>\<open>strings.Join(parts, sep)\<close>.\<close>

fun Join :: "string list \<Rightarrow> string \<Rightarrow> string" where
  "Join [] sep = []"
| "Join [x] sep = x"
| "Join (x # y # ys) sep = x @ sep @ Join (y # ys) sep"

section \<open>internal/textutil: SanitizeJSON\<close>

text \<open>
  \<open>for _, ch := range s\<close> decodes \<open>s\<close> as UTF-8, rune by rune. \<open>runeLen\<close> is the number of
  bytes of the well-formed sequence at the head of the string (the ranges are those of
  Go's decoder), or 0 when the first byte starts none; then Go yields \<open>U+FFFD\<close> and
  advances by one byte.
\<close>

fun accept :: "string \<Rightarrow> (nat \<times> nat) list \<Rightarrow> bool" where
  "accept s [] = True"
| "accept [] (r # rs) = False"
| "accept (c # cs) ((lo, hi) # rs) = (lo \<le> of_char c \<and> of_char c \<le> hi \<and> accept cs rs)"

definition runeLen :: "string \<Rightarrow> nat" where
  "runeLen s =
     (case s of
        [] \<Rightarrow> 0
      | c # cs \<Rightarrow>
          (let x = (of_char c :: nat) in
           if x < 0x80 then 1
           else if 0xC2 \<le> x \<and> x \<le> 0xDF then (if accept cs [(0x80, 0xBF)] then 2 else 0)
           else if x = 0xE0 then (if accept cs [(0xA0, 0xBF), (0x80, 0xBF)] then 3 else 0)
           else if x = 0xED then (if accept cs [(0x80, 0x9F), (0x80, 0xBF)] then 3 else 0)
           else if 0xE1 \<le> x \<and> x \<le> 0xEF then
             (if accept cs [(0x80, 0xBF), (0x80, 0xBF)] then 3 else 0)
           else if x = 0xF0 then
             (if accept cs [(0x90, 0xBF), (0x80, 0xBF), (0x80, 0xBF)] then 4 else 0)
           else if 0xF1 \<le> x \<and> x \<le> 0xF3 then
             (if accept cs [(0x80, 0xBF), (0x80, 0xBF), (0x80, 0xBF)] then 4 else 0)
           else if x = 0xF4 then
             (if accept cs [(0x80, 0x8F), (0x80, 0xBF), (0x80, 0xBF)] then 4 else 0)
           else 0))"

text \<open>
  A rune is kept as the bytes \<open>WriteRune\<close> writes for it: a well-formed sequence is written
  back as it was read, and \<open>U+FFFD\<close> is written as \<open>EF BF BD\<close>. A rune equals an ASCII
  character exactly when it is that single byte.
\<close>

function runes :: "string \<Rightarrow> string list" where
  "runes [] = []"
| "runes (c # cs) =
     (let n = runeLen (c # cs) in
      if n = 0 then [CHR 0xEF, CHR 0xBF, CHR 0xBD] # runes cs
      else take n (c # cs) # runes (drop (n - 1) cs))"
  by pat_completeness auto
termination
  by (relation "measure length") auto

definition validJSONEscape :: "string \<Rightarrow> bool" where
  "validJSONEscape ch \<longleftrightarrow>
     ch \<in> set [[CHR 0x22], [CHR 0x5C], ''/'', ''b'', ''f'', ''n'', ''r'', ''t'', ''u'']"

text \<open>One step of the loop; the state is \<open>inString\<close>, \<open>escaped\<close> and the builder's content.\<close>

definition sanitizeStep :: "bool \<times> bool \<times> string \<Rightarrow> string \<Rightarrow> bool \<times> bool \<times> string" where
  "sanitizeStep st ch =
     (case st of (inString, escaped, out) \<Rightarrow>
        if escaped then
          (inString, False, (if \<not> validJSONEscape ch then out @ [CHR 0x5C] else out) @ ch)
        else if ch = [CHR 0x5C] \<and> inString then (inString, True, out @ ch)
        else if ch = [CHR 0x22] then (\<not> inString, escaped, out @ ch)
        else if inString \<and> ch = [CHR 0x0A] then (inString, escaped, out @ [CHR 0x5C, CHR ''n''])
        else if inString \<and> ch = [CHR 0x0D] then (inString, escaped, out @ [CHR 0x5C, CHR ''r''])
        else if inString \<and> ch = [CHR 0x09] then (inString, escaped, out @ [CHR 0x5C, CHR ''t''])
        else (inString, escaped, out @ ch))"

definition SanitizeJSON :: "string \<Rightarrow> string" where
  "SanitizeJSON s = snd (snd (foldl sanitizeStep (False, False, []) (runes s)))"

section \<open>internal/analyzer: ParseSynthesis\<close>

record SynthesisResult =
  CodingPhilosophy :: string
  CodeStyleRules :: string
  ReviewPriorities :: string
  ReviewVoice :: string
  CommunicationPatterns :: string
  TestingPhilosophy :: string
  DistinctiveTraits :: string
  DeveloperInterests :: string
  ProjectPatterns :: string
  CollaborationStyle :: string

text \<open>
  The calls into \<open>encoding/json\<close>, which is outside the repository, are parameters: each
  returns the library's error message or its value. A \<open>map[string]json.RawMessage\<close> is a
  list of pairs of a key and the raw text of its value.
\<close>

record json_lib =
  UnmarshalRawMap :: "string \<Rightarrow> string + (string \<times> string) list"
  UnmarshalStrings :: "string \<Rightarrow> string + string list"
  MarshalString :: "string \<Rightarrow> string"
  MarshalRawMap :: "(string \<times> string) list \<Rightarrow> string + string"
  UnmarshalSynthesis :: "string \<Rightarrow> string + SynthesisResult"

datatype synthesis_error =
    InvalidJSON string string
  | Remarshaling string
  | InvalidAfterNormalization string string

text \<open>
  The loop \<open>for k, v := range rawMap\<close>: a value that starts with \<open>[\<close> and decodes as a
  list of strings is replaced by the JSON string of its items joined by line feeds.
\<close>

definition normalizeEntry :: "json_lib \<Rightarrow> string \<times> string \<Rightarrow> string \<times> string" where
  "normalizeEntry j kv =
     (case kv of (k, v) \<Rightarrow>
        (let trimmed = TrimSpace v in
         if length trimmed > 0 \<and> hd trimmed = CHR ''[''
         then (case UnmarshalStrings j v of
                 Inr items \<Rightarrow> (k, MarshalString j (Join items [CHR 0x0A]))
               | Inl err \<Rightarrow> (k, v))
         else (k, v)))"

text \<open>The part of \<open>ParseSynthesis\<close> after \<open>rawMap\<close> has been decoded.\<close>

definition finishSynthesis ::
  "json_lib \<Rightarrow> string \<Rightarrow> (string \<times> string) list \<Rightarrow> synthesis_error + SynthesisResult" where
  "finishSynthesis j excerpt rawMap =
     (case MarshalRawMap j (map (normalizeEntry j) rawMap) of
        Inl err \<Rightarrow> Inl (Remarshaling err)
      | Inr normalized \<Rightarrow>
          (case UnmarshalSynthesis j normalized of
             Inl err \<Rightarrow> Inl (InvalidAfterNormalization err excerpt)
           | Inr result \<Rightarrow> Inr result))"

text \<open>
  \<open>ParseSynthesis(raw)\<close>. The read \<open>text[0]\<close> is not guarded by a length test: on an
  empty \<open>text\<close> it panics. The outer sum is the panic, the inner one the returned error.
\<close>

definition ParseSynthesis ::
  "json_lib \<Rightarrow> string \<Rightarrow> panic + (synthesis_error + SynthesisResult)" where
  "ParseSynthesis j raw =
     (let text = TrimSpace raw in
      if length text \<le> 0 then Inl IndexOutOfRange
      else
        (let text =
           (if text ! 0 \<noteq> CHR ''{'' then
              (let idx = Index text backticks in
               if idx \<ge> 0 then
                 (let text = drop (nat (idx + 3)) text;
                      text = TrimPrefix text ''json'';
                      e = LastIndex text backticks;
                      text = (if e \<ge> 0 then take (nat e) text else text)
                  in TrimSpace text)
               else text)
            else text)
         in case Truncate raw 500 ''...'' of
              Inl p \<Rightarrow> Inl p
            | Inr excerpt \<Rightarrow>
                Inr (case UnmarshalRawMap j text of
                       Inr rawMap \<Rightarrow> finishSynthesis j excerpt rawMap
                     | Inl err \<Rightarrow>
                         (case UnmarshalRawMap j (SanitizeJSON text) of
                            Inr rawMap \<Rightarrow> finishSynthesis j excerpt rawMap
                          | Inl err2 \<Rightarrow> Inl (InvalidJSON err excerpt)))))"

section \<open>internal/ghcrawl: the rate-limit transport\<close>

text \<open>
  \<open>strconv.Atoi(s)\<close> and \<open>strconv.ParseInt(s, 10, 64)\<close> on a 64-bit platform: an optional
  sign, then one or more decimal digits and nothing else, and a value that fits in an
  \<open>int64\<close>; anything else is an error (\<open>None\<close>).
\<close>

definition isDigit :: "char \<Rightarrow> bool" where
  "isDigit c \<longleftrightarrow> 48 \<le> (of_char c :: nat) \<and> (of_char c :: nat) \<le> 57"

definition digitsValue :: "string \<Rightarrow> int" where
  "digitsValue ds = foldl (\<lambda>n c. n * 10 + (int (of_char c) - 48)) 0 ds"

definition parseDecimal :: "string \<Rightarrow> int option" where
  "parseDecimal s =
     (let neg = (s \<noteq> [] \<and> hd s = CHR ''-'');
          ds = (if s \<noteq> [] \<and> (hd s = CHR ''-'' \<or> hd s = CHR ''+'') then tl s else s)
      in if ds = [] \<or> \<not> list_all isDigit ds then None
         else (let v = (if neg then - digitsValue ds else digitsValue ds)
               in if - (2 ^ 63) \<le> v \<and> v < 2 ^ 63 then Some v else None))"

definition Atoi :: "string \<Rightarrow> int option" where
  "Atoi s = parseDecimal s"

definition ParseInt64 :: "string \<Rightarrow> int option" where
  "ParseInt64 s = parseDecimal s"

text \<open>
  A response: its status code and its headers, a list of names and values; \<open>Header.Get\<close>
  gives the empty string for an absent header. Durations are in nanoseconds, as
  \<open>time.Duration\<close> is.
\<close>

record Response =
  StatusCode :: int
  Header :: "(string \<times> string) list"

definition HeaderGet :: "Response \<Rightarrow> string \<Rightarrow> string" where
  "HeaderGet resp k = (case map_of (Header resp) k of None \<Rightarrow> [] | Some v \<Rightarrow> v)"

definition Second :: int where "Second = 1000000000"
definition Minute :: int where "Minute = 60 * Second"
definition maxRetries :: nat where "maxRetries = 3"

text \<open>
  What surrounds a call of \<open>RoundTrip\<close>, indexed by the attempt (0, 1, 2): the result of
  \<open>t.base.RoundTrip(req)\<close> (an error or a response), the clock read by \<open>time.Until\<close> (Unix
  time in nanoseconds), and whether the request's context is cancelled during the sleep of
  that attempt (\<open>sleepContext\<close> then returns the context's error).
\<close>

record transport_env =
  baseRoundTrip :: "nat \<Rightarrow> string + Response"
  clock :: "nat \<Rightarrow> int"
  ctxDone :: "nat \<Rightarrow> bool"

datatype transport_error = BaseError string | ContextError | RetriesExhausted nat

text \<open>The effects of a call, in order: sleeps requested (with their duration), bodies closed.\<close>

datatype effect = Sleep int | CloseBody

text \<open>
  The branch for a response that is not rate-limited. \<open>time.Until(time.Unix(resetUnix, 0))\<close>
  is \<open>resetUnix\<close> seconds minus the clock; Go saturates the difference at the ends of
  \<open>int64\<close>, which leaves the test \<open>0 < wait < 15 min\<close> as it is.
\<close>

definition proactivePause ::
  "transport_env \<Rightarrow> nat \<Rightarrow> Response \<Rightarrow> (transport_error + Response) \<times> effect list" where
  "proactivePause e attempt resp =
     (let remaining = HeaderGet resp ''X-RateLimit-Remaining'' in
      if remaining \<noteq> [] then
        (case Atoi remaining of
           None \<Rightarrow> (Inr resp, [])
         | Some rem \<Rightarrow>
             if rem \<le> 10 then
               (case ParseInt64 (HeaderGet resp ''X-RateLimit-Reset'') of
                  None \<Rightarrow> (Inr resp, [])
                | Some resetUnix \<Rightarrow>
                    (let wait = resetUnix * Second - clock e attempt in
                     if wait > 0 \<and> wait < 15 * Minute then
                       (if ctxDone e attempt
                        then (Inl ContextError, [Sleep (wait + Second), CloseBody])
                        else (Inr resp, [Sleep (wait + Second)]))
                     else (Inr resp, [])))
             else (Inr resp, []))
      else (Inr resp, []))"

text \<open>The loop \<open>for attempt := range maxRetries\<close>, entered at \<open>attempt\<close>.\<close>

function roundTripFrom ::
  "transport_env \<Rightarrow> nat \<Rightarrow> (transport_error + Response) \<times> effect list" where
  "roundTripFrom e attempt =
     (if attempt < maxRetries then
        (case baseRoundTrip e attempt of
           Inl err \<Rightarrow> (Inl (BaseError err), [])
         | Inr resp \<Rightarrow>
             (let isRateLimited = (StatusCode resp = 403 \<or> StatusCode resp = 429) in
              if \<not> isRateLimited then proactivePause e attempt resp
              else
                (case Atoi (HeaderGet resp ''Retry-After'') of
                   None \<Rightarrow> (Inr resp, [])
                 | Some secs \<Rightarrow>
                     if secs \<le> 0 \<or> secs \<ge> 900 then (Inr resp, [])
                     else if ctxDone e attempt
                       then (Inl ContextError, [CloseBody, Sleep (secs * Second)])
                       else (case roundTripFrom e (attempt + 1) of
                               (r, effects) \<Rightarrow>
                                 (r, CloseBody # Sleep (secs * Second) # effects)))))
      else (Inl (RetriesExhausted maxRetries), []))"
  by pat_completeness auto
termination
  by (relation "measure (\<lambda>(e, attempt). maxRetries - attempt)") auto

definition RoundTrip :: "transport_env \<Rightarrow> (transport_error + Response) \<times> effect list" where
  "RoundTrip e = roundTripFrom e 0"

declare roundTripFrom.simps [simp del]

text \<open>Responses and environments for evaluation.\<close>

definition response :: "int \<Rightarrow> (string \<times> string) list \<Rightarrow> Response" where
  "response code hs = \<lparr>StatusCode = code, Header = hs\<rparr>"

definition retry_env :: transport_env where
  "retry_env =
     \<lparr>baseRoundTrip = (\<lambda>k. Inr (if k = 0 then response 429 [(''Retry-After'', ''2'')]
                                else response 200 [])),
      clock = (\<lambda>k. 0), ctxDone = (\<lambda>k. False)\<rparr>"

definition exhausted_env :: transport_env where
  "exhausted_env =
     \<lparr>baseRoundTrip = (\<lambda>k. Inr (response 403 [(''Retry-After'', ''1'')])),
      clock = (\<lambda>k. 0), ctxDone = (\<lambda>k. False)\<rparr>"

definition quota_response :: "string \<Rightarrow> string \<Rightarrow> Response" where
  "quota_response remaining reset =
     response 200 [(''X-RateLimit-Remaining'', remaining), (''X-RateLimit-Reset'', reset)]"

definition quota_env :: "string \<Rightarrow> string \<Rightarrow> transport_env" where
  "quota_env remaining reset =
     \<lparr>baseRoundTrip = (\<lambda>k. Inr (quota_response remaining reset)),
      clock = (\<lambda>k. 940 * Second), ctxDone = (\<lambda>k. False)\<rparr>"

text \<open>
  The rate-limiting statuses, and a valid retry-after value: a header that parses as an
  integer of at least 1 and less than 900 seconds.
\<close>

definition rateLimited :: "Response \<Rightarrow> bool" where
  "rateLimited resp \<longleftrightarrow> StatusCode resp = 403 \<or> StatusCode resp = 429"

definition retryAfter :: "Response \<Rightarrow> int option" where
  "retryAfter resp =
     (case Atoi (HeaderGet resp ''Retry-After'') of
        None \<Rightarrow> None
      | Some secs \<Rightarrow> if 0 < secs \<and> secs < 900 then Some secs else None)"

text \<open>
  The time to the reset when the quota headers call for a pause: the remaining count
  parses as an integer of at most 10, and the reset time parses, lies after the clock and
  less than 15 minutes after it.
\<close>

definition pauseNeeded :: "Response \<Rightarrow> int \<Rightarrow> int option" where
  "pauseNeeded resp now =
     (case (Atoi (HeaderGet resp ''X-RateLimit-Remaining''),
            ParseInt64 (HeaderGet resp ''X-RateLimit-Reset'')) of
        (Some rem, Some resetUnix) \<Rightarrow>
          if rem \<le> 10 \<and> 0 < resetUnix * Second - now \<and> resetUnix * Second - now < 15 * Minute
          then Some (resetUnix * Second - now) else None
      | _ \<Rightarrow> None)"

section \<open>internal/ghcrawl: selectDiverseRepos\<close>

text \<open>
  The fields of \<open>github.Repository\<close> that the selection reads. \<open>strings.EqualFold\<close> is
  modelled on ASCII (GitHub logins are ASCII): equality after lower-casing the letters
  \<open>A\<close> to \<open>Z\<close>.
\<close>

record Repository =
  RepoName :: string
  Fork :: bool
  OwnerLogin :: string
  Language :: string
  CreatedAt :: int
  StargazersCount :: int

definition toLower :: "char \<Rightarrow> char" where
  "toLower c =
     (if 65 \<le> (of_char c :: nat) \<and> (of_char c :: nat) \<le> 90
      then char_of ((of_char c :: nat) + 32) else c)"

definition EqualFold :: "string \<Rightarrow> string \<Rightarrow> bool" where
  "EqualFold s t \<longleftrightarrow> map toLower s = map toLower t"

text \<open>
  Two things the Go run time leaves open are inputs of the model: the order in which
  \<open>range langGroups\<close> visits the keys of the map in each round (positions into the list
  of groups), and the permutation \<open>sort.Slice\<close> produces (it is not stable).
\<close>

record select_env =
  mapOrder :: "nat \<Rightarrow> nat list"
  sortSlice :: "(nat \<Rightarrow> nat \<Rightarrow> bool) \<Rightarrow> nat list \<Rightarrow> nat list"

text \<open>
  \<open>langGroups[lang] = append(langGroups[lang], i)\<close>; the map is a list of keys with their
  index lists, in the order in which the keys were first inserted.
\<close>

fun appendTo :: "(string \<times> nat list) list \<Rightarrow> string \<Rightarrow> nat \<Rightarrow> (string \<times> nat list) list" where
  "appendTo [] lang i = [(lang, [i])]"
| "appendTo ((k, indices) # groups) lang i =
     (if k = lang then (k, indices @ [i]) # groups else (k, indices) # appendTo groups lang i)"

text \<open>The first loop, over \<open>repos\<close> from index \<open>i\<close> on.\<close>

fun groupLangs ::
  "string \<Rightarrow> Repository list \<Rightarrow> nat \<Rightarrow> (string \<times> nat list) list \<Rightarrow> (string \<times> nat list) list" where
  "groupLangs username [] i langGroups = langGroups"
| "groupLangs username (r # rs) i langGroups =
     (if Fork r \<or> \<not> EqualFold (OwnerLogin r) username
      then groupLangs username rs (i + 1) langGroups
      else (let lang = (if Language r = [] then ''_none'' else Language r)
            in groupLangs username rs (i + 1) (appendTo langGroups lang i)))"

text \<open>
  One round of the round-robin: the loop over the groups in the order of the round. The
  state is \<open>selected\<close> (the keys of the map \<open>selected\<close>) and \<open>added\<close>.
\<close>

fun visitGroups :: "nat list list \<Rightarrow> nat \<Rightarrow> int \<Rightarrow> nat set \<times> bool \<Rightarrow> nat set \<times> bool" where
  "visitGroups [] round langBudget st = st"
| "visitGroups (indices # rest) round langBudget (selected, added) =
     (if round < length indices \<and> int (card selected) < langBudget
      then visitGroups rest round langBudget (insert (indices ! round) selected, True)
      else visitGroups rest round langBudget (selected, added))"

definition groupsInOrder :: "(string \<times> nat list) list \<Rightarrow> nat list \<Rightarrow> nat list list" where
  "groupsInOrder langGroups order =
     map (\<lambda>p. snd (langGroups ! p)) (filter (\<lambda>p. p < length langGroups) order)"

definition maxGroupLen :: "(string \<times> nat list) list \<Rightarrow> nat" where
  "maxGroupLen langGroups = foldr (\<lambda>g m. max (length (snd g)) m) langGroups 0"

text \<open>\<open>for round := 0; len(selected) < langBudget; round++\<close>, entered at \<open>round\<close>.\<close>

function roundRobin ::
  "select_env \<Rightarrow> (string \<times> nat list) list \<Rightarrow> int \<Rightarrow> nat \<Rightarrow> nat set \<Rightarrow> nat set" where
  "roundRobin env langGroups langBudget round selected =
     (if int (card selected) < langBudget then
        (case visitGroups (groupsInOrder langGroups (mapOrder env round)) round langBudget
                (selected, False) of
           (selected', added) \<Rightarrow>
             if \<not> added then selected'
             else roundRobin env langGroups langBudget (round + 1) selected')
      else selected)"
  by pat_completeness auto
termination
proof (relation "measure (\<lambda>(env, langGroups, langBudget, round, selected).
                            maxGroupLen langGroups - round)")
  show "wf (measure (\<lambda>(env, langGroups, langBudget, round, selected).
                            maxGroupLen langGroups - round))"
    by simp
next
  fix env :: select_env and langGroups :: "(string \<times> nat list) list" and langBudget :: int
    and round :: nat and selected x :: "nat set" and added :: bool
  assume v: "(x, added) = visitGroups (groupsInOrder langGroups (mapOrder env round)) round
                 langBudget (selected, False)"
    and a: "\<not> \<not> added"
  have visit: "visitGroups gs round langBudget (sel, ad) = (sel', True) \<Longrightarrow> \<not> ad \<Longrightarrow>
      \<exists>g \<in> set gs. round < length g" for gs sel ad sel'
    by (induction gs arbitrary: sel ad) (auto split: if_splits)
  have bound: "g \<in> set langGroups \<Longrightarrow> length (snd g) \<le> maxGroupLen langGroups" for g
    unfolding maxGroupLen_def by (induction langGroups) auto
  from v a visit [of "groupsInOrder langGroups (mapOrder env round)" selected False x]
  obtain g where g: "g \<in> set (groupsInOrder langGroups (mapOrder env round))"
      "round < length g"
    by auto
  then obtain p where "p < length langGroups" "g = snd (langGroups ! p)"
    by (auto simp: groupsInOrder_def)
  with bound [of "langGroups ! p"] g(2) have "round < maxGroupLen langGroups"
    by simp
  then show "((env, langGroups, langBudget, round + 1, x),
              (env, langGroups, langBudget, round, selected))
      \<in> measure (\<lambda>(env, langGroups, langBudget, round, selected).
                            maxGroupLen langGroups - round)"
    by simp
qed

text \<open>
  \<open>for i := 0; i < len(unselected) && len(selected) < maxRepos; i += step\<close>, entered at
  \<open>i\<close>. The source sets \<open>step\<close> to at least 1 before the loop; the test \<open>0 < step\<close> is
  there for the recursion to be well-founded.
\<close>

function spreadSelect :: "nat list \<Rightarrow> int \<Rightarrow> nat \<Rightarrow> nat \<Rightarrow> nat set \<Rightarrow> nat set" where
  "spreadSelect unselected maxRepos step i selected =
     (if i < length unselected \<and> int (card selected) < maxRepos \<and> 0 < step
      then spreadSelect unselected maxRepos step (i + step) (insert (unselected ! i) selected)
      else selected)"
  by pat_completeness auto
termination
  by (relation "measure (\<lambda>(unselected, maxRepos, step, i, selected). length unselected - i)")
     auto

declare roundRobin.simps [simp del] spreadSelect.simps [simp del]

text \<open>The loop over \<open>forks\<close>, which stops when the budget is reached.\<close>

fun fillForks :: "nat list \<Rightarrow> int \<Rightarrow> nat set \<Rightarrow> nat set" where
  "fillForks [] maxRepos selected = selected"
| "fillForks (i # rest) maxRepos selected =
     (if int (card selected) \<ge> maxRepos then selected
      else fillForks rest maxRepos (insert i selected))"

text \<open>The indices chosen by \<open>selectDiverseRepos\<close> when the list is longer than \<open>maxRepos\<close>.\<close>

definition selectIndices :: "select_env \<Rightarrow> Repository list \<Rightarrow> int \<Rightarrow> string \<Rightarrow> nat set" where
  "selectIndices env repos maxRepos username =
     (let langGroups = groupLangs username repos 0 [];
          langBudget = (if maxRepos sdiv 2 < 1 then 1 else maxRepos sdiv 2);
          selected = roundRobin env langGroups langBudget 0 {};
          unselected = filter (\<lambda>i. \<not> (i \<in> selected \<or> Fork (repos ! i))
                                   \<and> EqualFold (OwnerLogin (repos ! i)) username)
                         [0..<length repos];
          unselected = sortSlice env
                         (\<lambda>a b. CreatedAt (repos ! a) < CreatedAt (repos ! b)) unselected;
          remaining = maxRepos - int (card selected);
          selected =
            (if remaining > 0 \<and> length unselected > 0
             then (let step = int (length unselected) div remaining;
                       step = (if step < 1 then 1 else step)
                   in spreadSelect unselected maxRepos (nat step) 0 selected)
             else selected)
      in if int (card selected) < maxRepos
         then (let forks = filter (\<lambda>i. i \<notin> selected
                                       \<and> (Fork (repos ! i)
                                            \<or> \<not> EqualFold (OwnerLogin (repos ! i)) username))
                             [0..<length repos];
                   forks = sortSlice env
                             (\<lambda>a b. StargazersCount (repos ! a) > StargazersCount (repos ! b))
                             forks
               in fillForks forks maxRepos selected)
         else selected)"

definition selectDiverseRepos ::
  "select_env \<Rightarrow> Repository list \<Rightarrow> int \<Rightarrow> string \<Rightarrow> Repository list" where
  "selectDiverseRepos env repos maxRepos username =
     (if int (length repos) \<le> maxRepos then repos
      else map (\<lambda>i. repos ! i)
             (filter (\<lambda>i. i \<in> selectIndices env repos maxRepos username) [0..<length repos]))"

text \<open>\<open>sort.Slice\<close> rearranges the slice: its result is a permutation of its argument.\<close>

definition permutes :: "((nat \<Rightarrow> nat \<Rightarrow> bool) \<Rightarrow> nat list \<Rightarrow> nat list) \<Rightarrow> bool" where
  "permutes srt \<longleftrightarrow> (\<forall>lt xs. mset (srt lt xs) = mset xs)"

text \<open>An instance for evaluation: insertion sort, and the groups visited in list order.\<close>

fun insertBy :: "(nat \<Rightarrow> nat \<Rightarrow> bool) \<Rightarrow> nat \<Rightarrow> nat list \<Rightarrow> nat list" where
  "insertBy lt x [] = [x]"
| "insertBy lt x (y # ys) = (if lt y x then y # insertBy lt x ys else x # y # ys)"

definition insertionSort :: "(nat \<Rightarrow> nat \<Rightarrow> bool) \<Rightarrow> nat list \<Rightarrow> nat list" where
  "insertionSort lt xs = foldr (insertBy lt) xs []"

definition example_env :: select_env where
  "example_env = \<lparr>mapOrder = (\<lambda>round. [0, 1, 2, 3]), sortSlice = insertionSort\<rparr>"

definition mkRepo :: "string \<Rightarrow> string \<Rightarrow> bool \<Rightarrow> string \<Rightarrow> Repository" where
  "mkRepo name lang fork owner =
     \<lparr>RepoName = name, Fork = fork, OwnerLogin = owner, Language = lang,
      CreatedAt = 0, StargazersCount = 0\<rparr>"

definition forks_example :: "Repository list" where
  "forks_example =
     [mkRepo ''owned'' ''Go'' False ''user'', mkRepo ''fork1'' ''Go'' True ''user'',
      mkRepo ''fork2'' ''Python'' True ''user'']"

text \<open>An owned repository: not a fork, and owned by the crawled user.\<close>

definition ownedRepo :: "string \<Rightarrow> Repository \<Rightarrow> bool" where
  "ownedRepo username r \<longleftrightarrow> \<not> Fork r \<and> EqualFold (OwnerLogin r) username"

section \<open>internal/ghcrawl: spreadIndices\<close>

text \<open>
  \<open>spreadIndices\<close> computes in \<open>float64\<close>. A finite non-negative double is a pair of a
  significand and a binary exponent, \<open>F64 m e\<close> standing for \<open>m * 2 ^ e\<close>. Every operation
  computes the exact rational result and rounds it to 53 significant bits, to nearest and
  ties to even, as IEEE 754 prescribes. The operands of \<open>spreadIndices\<close> are integers
  below \<open>2 ^ 63\<close> and their quotients and products, so neither overflow nor subnormal
  numbers occur.
\<close>

datatype f64 = F64 int int

text \<open>The number of bits of a positive integer.\<close>

function bitlen :: "int \<Rightarrow> int" where
  "bitlen n = (if n \<le> 0 then 0 else 1 + bitlen (n div 2))"
  by pat_completeness auto
termination
  by (relation "measure nat") auto

declare bitlen.simps [simp del]

text \<open>The quotient \<open>num / den\<close> rounded to the nearest integer, ties to the even one.\<close>

definition roundHalfEven :: "int \<Rightarrow> int \<Rightarrow> int" where
  "roundHalfEven num den =
     (let q = num div den; r = num mod den
      in if 2 * r < den then q
         else if 2 * r > den then q + 1
         else if even q then q else q + 1)"









section \<open>float64 scores\<close>

text \<open>
  The scores of the benchmark are arbitrary doubles, so the model of \<open>float64\<close> is
  completed here: a double is a finite value \<open>m * 2 ^ e\<close> of either sign, an infinity or
  a NaN. \<open>round64 a b\<close> is the double nearest to \<open>a / b\<close> (for \<open>b > 0\<close>), ties to even,
  with the subnormal range (no exponent below \<open>-1074\<close>) and overflow to an infinity. The
  sign of a zero is not kept; no operation below depends on it.
\<close>

datatype float64 = Num f64 | PlusInf | MinusInf | NotANumber

definition round64 :: "int \<Rightarrow> int \<Rightarrow> float64" where
  "round64 a b =
     (if a = 0 then Num (F64 0 0)
      else
        (let a' = \<bar>a\<bar>;
             d = bitlen a' - bitlen b;
             e = (if (if d \<ge> 0 then a' \<ge> b * 2 ^ nat d else a' * 2 ^ nat (- d) \<ge> b)
                  then d else d - 1);
             e = max e (- 1022);
             num = (if e \<le> 52 then a' * 2 ^ nat (52 - e) else a');
             den = (if e \<le> 52 then b else b * 2 ^ nat (e - 52));
             n = roundHalfEven num den
         in if e > 1023 \<or> (e = 1023 \<and> n \<ge> 2 ^ 53)
            then (if a > 0 then PlusInf else MinusInf)
            else Num (F64 (sgn a * n) (e - 52))))"

text \<open>\<open>float64(n)\<close> for an integer.\<close>

definition float64_of_int :: "int \<Rightarrow> float64" where
  "float64_of_int n = round64 n 1"

text \<open>\<open>x + y\<close>.\<close>

fun float64_add :: "float64 \<Rightarrow> float64 \<Rightarrow> float64" where
  "float64_add NotANumber y = NotANumber"
| "float64_add x NotANumber = NotANumber"
| "float64_add PlusInf MinusInf = NotANumber"
| "float64_add MinusInf PlusInf = NotANumber"
| "float64_add PlusInf y = PlusInf"
| "float64_add x PlusInf = PlusInf"
| "float64_add MinusInf y = MinusInf"
| "float64_add x MinusInf = MinusInf"
| "float64_add (Num (F64 m1 e1)) (Num (F64 m2 e2)) =
     (let e = min e1 e2;
          sm = m1 * 2 ^ nat (e1 - e) + m2 * 2 ^ nat (e2 - e)
      in if e \<ge> 0 then round64 (sm * 2 ^ nat e) 1 else round64 sm (2 ^ nat (- e)))"

text \<open>\<open>x / y\<close>.\<close>

fun float64_div :: "float64 \<Rightarrow> float64 \<Rightarrow> float64" where
  "float64_div NotANumber y = NotANumber"
| "float64_div x NotANumber = NotANumber"
| "float64_div PlusInf (Num (F64 m e)) = (if m < 0 then MinusInf else PlusInf)"
| "float64_div MinusInf (Num (F64 m e)) = (if m < 0 then PlusInf else MinusInf)"
| "float64_div PlusInf y = NotANumber"
| "float64_div MinusInf y = NotANumber"
| "float64_div (Num x) PlusInf = Num (F64 0 0)"
| "float64_div (Num x) MinusInf = Num (F64 0 0)"
| "float64_div (Num (F64 m1 e1)) (Num (F64 m2 e2)) =
     (if m2 = 0 then (if m1 = 0 then NotANumber else if m1 > 0 then PlusInf else MinusInf)
      else
        (let a = (if m2 > 0 then m1 else - m1); b = \<bar>m2\<bar>
         in if e1 - e2 \<ge> 0 then round64 (a * 2 ^ nat (e1 - e2)) b
            else round64 a (b * 2 ^ nat (e2 - e1))))"

text \<open>\<open>x >= y\<close>: false as soon as one side is a NaN.\<close>

fun float64_ge :: "float64 \<Rightarrow> float64 \<Rightarrow> bool" where
  "float64_ge NotANumber y = False"
| "float64_ge x NotANumber = False"
| "float64_ge PlusInf y = True"
| "float64_ge x MinusInf = True"
| "float64_ge MinusInf y = False"
| "float64_ge x PlusInf = False"
| "float64_ge (Num (F64 m1 e1)) (Num (F64 m2 e2)) =
     (let e = min e1 e2 in m1 * 2 ^ nat (e1 - e) \<ge> m2 * 2 ^ nat (e2 - e))"

section \<open>internal/benchmark: the refinement loop\<close>

definition MaxHeldOut :: int where "MaxHeldOut = 3"
definition MaxIterations :: int where "MaxIterations = 5"

text \<open>\<open>TargetScore = 80.0\<close>.\<close>

definition TargetScore :: float64 where "TargetScore = Num (F64 80 0)"

record ReviewPair =
  Original :: string
  Generated :: string
  PPath :: string
  PScore :: float64

record IterationResult =
  Iteration :: int
  Score :: float64
  Feedback :: string
  Pairs :: "ReviewPair list"

record Result =
  FinalScore :: float64
  Iterations :: int
  History :: "IterationResult list"

text \<open>\<open>analyzer.Persona\<close>; \<open>Synthesis\<close> is a pointer, \<open>None\<close> when it is nil.\<close>

record Persona =
  Username :: string
  CodeStyle :: string
  ReviewStyle :: string
  Communication :: string
  DeveloperIdentity :: string
  Synthesis :: "SynthesisResult option"

record comparisonResult =
  score :: float64
  feedback :: string

text \<open>The struct \<open>parsed\<close> that \<open>parseComparisonResult\<close> decodes into.\<close>

record parsedComparison =
  ScoreField :: float64
  FeedbackField :: string

text \<open>Errors, wrapped as \<open>fmt.Errorf("...: %w", err)\<close> wraps them.\<close>

datatype error =
    ProviderError string
  | DryRunReviewError error
  | ComparisonError error
  | InvalidComparisonJSON string string
  | ParsingRefinedSynthesis synthesis_error
  | BenchmarkIteration int error
  | RefiningPersona int error

text \<open>A call ends in a panic, in a returned error, or in a returned value.\<close>

datatype 'a outcome = Panicked panic | Failed error | Returned 'a

text \<open>
  The system prompts and the format strings are long constants of the source; they are
  named, not spelled out. \<open>pairHeaderFormat\<close> and \<open>pairBodyFormat\<close> are the two formats of
  the loop in \<open>refinePersona\<close>.
\<close>

datatype system_prompt = dryRunSystemPrompt | compareSystemPrompt | refineSystemPrompt

datatype format_string =
  dryRunReviewPrompt | comparePrompt | refinePrompt | pairHeaderFormat | pairBodyFormat

datatype format_arg = StringArg string | IntArg int | FloatArg float64

text \<open>
  What lies outside the repository: \<open>Complete k system prompt\<close> is the result of the
  \<open>k\<close>-th call of \<open>provider.Complete\<close> since the start of \<open>Run\<close> (an error message or the
  completion); \<open>Sprintf\<close> is \<open>fmt.Sprintf\<close> (and \<open>fmt.Fprintf\<close> into a
  builder); \<open>decodeComparison text parsed\<close> is \<open>json.NewDecoder(strings.NewReader(text))\<close>
  followed by \<open>Decode(&parsed)\<close>: the error, if any, and the struct as the call leaves it;
  \<open>json\<close> holds the calls made by \<open>ParseSynthesis\<close>. The state threaded through the model
  is the number of calls of \<open>Complete\<close> made so far. The calls of \<open>slog\<close> only write to the
  log and are left out.
\<close>

record bench_env =
  Complete :: "nat \<Rightarrow> system_prompt \<Rightarrow> string \<Rightarrow> string + string"
  Sprintf :: "format_string \<Rightarrow> format_arg list \<Rightarrow> string"
  decodeComparison :: "string \<Rightarrow> parsedComparison \<Rightarrow> string option \<times> parsedComparison"
  json :: json_lib

text \<open>\<open>stripCodeFences(s)\<close>.\<close>

definition stripCodeFences :: "string \<Rightarrow> string" where
  "stripCodeFences s =
     (let text = TrimSpace s in
      if length text > 0 \<and> text ! 0 \<noteq> CHR ''{'' then
        (let idx = Index text backticks in
         if idx \<ge> 0 then
           (let text = drop (nat (idx + 3)) text;
                text = TrimPrefix text ''json'';
                e = LastIndex text backticks;
                text = (if e \<ge> 0 then take (nat e) text else text)
            in TrimSpace text)
         else text)
      else text)"

text \<open>
  \<open>parseComparisonResult(raw)\<close>. The second \<open>Decode\<close> writes into the struct the first one
  left.
\<close>

definition parseComparisonResult :: "bench_env \<Rightarrow> string \<Rightarrow> comparisonResult outcome" where
  "parseComparisonResult env raw =
     (let text = stripCodeFences raw in
      case decodeComparison env text \<lparr>ScoreField = Num (F64 0 0), FeedbackField = []\<rparr> of
        (None, parsed) \<Rightarrow>
          Returned \<lparr>score = ScoreField parsed, feedback = FeedbackField parsed\<rparr>
      | (Some err, parsed) \<Rightarrow>
          (let sanitized = SanitizeJSON text in
           case decodeComparison env sanitized parsed of
             (None, parsed) \<Rightarrow>
               Returned \<lparr>score = ScoreField parsed, feedback = FeedbackField parsed\<rparr>
           | (Some err2, parsed) \<Rightarrow>
               (case Truncate raw 500 ''...'' of
                  Inl p \<Rightarrow> Panicked p
                | Inr excerpt \<Rightarrow> Failed (InvalidComparisonJSON err excerpt))))"

text \<open>
  \<open>formatPersonaContext\<close> reads the fields of \<open>p.Synthesis\<close>: a nil pointer panics at the
  first read.
\<close>

definition contextSection :: "string \<Rightarrow> string \<Rightarrow> string" where
  "contextSection title body = title @ [CHR '':'', CHR 0x0A] @ body @ [CHR 0x0A, CHR 0x0A]"

definition formatPersonaContext :: "Persona \<Rightarrow> panic + string" where
  "formatPersonaContext p =
     (case Synthesis p of
        None \<Rightarrow> Inl NilPointerDereference
      | Some s \<Rightarrow>
          Inr (contextSection ''CODING PHILOSOPHY'' (CodingPhilosophy s)
               @ contextSection ''CODE STYLE RULES'' (CodeStyleRules s)
               @ contextSection ''REVIEW PRIORITIES'' (ReviewPriorities s)
               @ contextSection ''REVIEW VOICE'' (ReviewVoice s)
               @ contextSection ''COMMUNICATION PATTERNS'' (CommunicationPatterns s)
               @ contextSection ''TESTING PHILOSOPHY'' (TestingPhilosophy s)
               @ contextSection ''DISTINCTIVE TRAITS'' (DistinctiveTraits s)
               @ contextSection ''DEVELOPER INTERESTS'' (DeveloperInterests s)
               @ contextSection ''PROJECT PATTERNS'' (ProjectPatterns s)
               @ ''COLLABORATION STYLE:'' @ [CHR 0x0A] @ CollaborationStyle s @ [CHR 0x0A]))"

definition generateDryRunReview ::
  "bench_env \<Rightarrow> Persona \<Rightarrow> HeldOutReview \<Rightarrow> nat \<Rightarrow> string outcome \<times> nat" where
  "generateDryRunReview env persona ho k =
     (case formatPersonaContext persona of
        Inl p \<Rightarrow> (Panicked p, k)
      | Inr personaContext \<Rightarrow>
          (let prompt = Sprintf env dryRunReviewPrompt
                          [StringArg (Username persona), StringArg personaContext,
                           StringArg (HPath ho), StringArg (HDiffHunk ho)]
           in case Complete env k dryRunSystemPrompt prompt of
                Inl err \<Rightarrow> (Failed (ProviderError err), Suc k)
              | Inr generated \<Rightarrow> (Returned generated, Suc k)))"

definition compareReviews ::
  "bench_env \<Rightarrow> HeldOutReview \<Rightarrow> string \<Rightarrow> nat \<Rightarrow> comparisonResult outcome \<times> nat" where
  "compareReviews env ho generated k =
     (let prompt = Sprintf env comparePrompt
                     [StringArg (HPath ho), StringArg (HDiffHunk ho), StringArg (HBody ho),
                      StringArg generated]
      in case Complete env k compareSystemPrompt prompt of
           Inl err \<Rightarrow> (Failed (ProviderError err), Suc k)
         | Inr raw \<Rightarrow> (parseComparisonResult env raw, Suc k))"

text \<open>The summary of the pairs that \<open>refinePersona\<close> writes, pair \<open>i\<close> numbered \<open>i + 1\<close>.\<close>

definition pairsSummary :: "bench_env \<Rightarrow> ReviewPair list \<Rightarrow> string" where
  "pairsSummary env pairs =
     concat (map (\<lambda>(i, pair).
                    Sprintf env pairHeaderFormat
                      [IntArg (int i + 1), StringArg (PPath pair), FloatArg (PScore pair)]
                    @ Sprintf env pairBodyFormat
                        [StringArg (Original pair), StringArg (Generated pair)])
                 (zip [0..<length pairs] pairs))"

text \<open>
  \<open>refinePersona\<close> reads the fields of \<open>persona.Synthesis\<close> (a nil pointer panics) and
  passes the completion to \<open>ParseSynthesis\<close>, whose panic nothing recovers.
\<close>

definition refinePersona ::
  "bench_env \<Rightarrow> Persona \<Rightarrow> IterationResult \<Rightarrow> nat \<Rightarrow> Persona outcome \<times> nat" where
  "refinePersona env persona iter k =
     (let summary = pairsSummary env (Pairs iter) in
      case Synthesis persona of
        None \<Rightarrow> (Panicked NilPointerDereference, k)
      | Some s \<Rightarrow>
          (let prompt = Sprintf env refinePrompt
                          [StringArg (Username persona), FloatArg (Score iter),
                           StringArg (CodingPhilosophy s), StringArg (CodeStyleRules s),
                           StringArg (ReviewPriorities s), StringArg (ReviewVoice s),
                           StringArg (CommunicationPatterns s), StringArg (TestingPhilosophy s),
                           StringArg (DistinctiveTraits s), StringArg (DeveloperInterests s),
                           StringArg (ProjectPatterns s), StringArg (CollaborationStyle s),
                           StringArg (Feedback iter), StringArg summary]
           in case Complete env k refineSystemPrompt prompt of
                Inl err \<Rightarrow> (Failed (ProviderError err), Suc k)
              | Inr raw \<Rightarrow>
                  (case ParseSynthesis (json env) raw of
                     Inl p \<Rightarrow> (Panicked p, Suc k)
                   | Inr (Inl err) \<Rightarrow> (Failed (ParsingRefinedSynthesis err), Suc k)
                   | Inr (Inr synthesis) \<Rightarrow>
                       (Returned (persona\<lparr>Synthesis := Some synthesis\<rparr>), Suc k))))"

text \<open>
  The loop of \<open>runIteration\<close> over the held-out reviews; its state is \<open>iterResult.Pairs\<close>,
  \<open>totalScore\<close> and \<open>feedbackParts\<close>.
\<close>

fun iterationLoop ::
  "bench_env \<Rightarrow> Persona \<Rightarrow> HeldOutReview list
     \<Rightarrow> ReviewPair list \<times> float64 \<times> string list \<Rightarrow> nat
     \<Rightarrow> (ReviewPair list \<times> float64 \<times> string list) outcome \<times> nat" where
  "iterationLoop env persona [] st k = (Returned st, k)"
| "iterationLoop env persona (ho # hos) (pairs, totalScore, feedbackParts) k =
     (case generateDryRunReview env persona ho k of
        (Panicked p, k1) \<Rightarrow> (Panicked p, k1)
      | (Failed err, k1) \<Rightarrow> (Failed (DryRunReviewError err), k1)
      | (Returned generated, k1) \<Rightarrow>
          (case compareReviews env ho generated k1 of
             (Panicked p, k2) \<Rightarrow> (Panicked p, k2)
           | (Failed err, k2) \<Rightarrow> (Failed (ComparisonError err), k2)
           | (Returned cmp, k2) \<Rightarrow>
               iterationLoop env persona hos
                 (pairs @ [\<lparr>Original = HBody ho, Generated = generated, PPath = HPath ho,
                             PScore = score cmp\<rparr>],
                  float64_add totalScore (score cmp),
                  feedbackParts @ [feedback cmp]) k2))"

definition runIteration ::
  "bench_env \<Rightarrow> Persona \<Rightarrow> HeldOutReview list \<Rightarrow> int \<Rightarrow> nat
     \<Rightarrow> IterationResult outcome \<times> nat" where
  "runIteration env persona heldOut iter k =
     (case iterationLoop env persona heldOut ([], Num (F64 0 0), []) k of
        (Panicked p, k') \<Rightarrow> (Panicked p, k')
      | (Failed err, k') \<Rightarrow> (Failed err, k')
      | (Returned (pairs, totalScore, feedbackParts), k') \<Rightarrow>
          (Returned \<lparr>Iteration = iter,
                     Score = float64_div totalScore (float64_of_int (int (length heldOut))),
                     Feedback = Join feedbackParts
                                  [CHR 0x0A, CHR ''-'', CHR ''-'', CHR ''-'', CHR 0x0A],
                     Pairs = pairs\<rparr>, k'))"

text \<open>
  The loop \<open>for iter := 1; iter <= MaxIterations; iter++\<close> of \<open>Run\<close>, entered at \<open>iter\<close>
  with the result so far and the current persona.
\<close>

function runLoop ::
  "bench_env \<Rightarrow> HeldOutReview list \<Rightarrow> int \<Rightarrow> Result \<Rightarrow> Persona \<Rightarrow> nat
     \<Rightarrow> (Result \<times> Persona option) outcome \<times> nat" where
  "runLoop env heldOut iter result current k =
     (if iter \<le> MaxIterations then
        (case runIteration env current heldOut iter k of
           (Panicked p, k1) \<Rightarrow> (Panicked p, k1)
         | (Failed err, k1) \<Rightarrow> (Failed (BenchmarkIteration iter err), k1)
         | (Returned iterResult, k1) \<Rightarrow>
             (let result' = result\<lparr>History := History result @ [iterResult],
                                   FinalScore := Score iterResult,
                                   Iterations := iter\<rparr>
              in if float64_ge (Score iterResult) TargetScore
                 then (Returned (result', Some current), k1)
                 else if iter < MaxIterations then
                   (case refinePersona env current iterResult k1 of
                      (Panicked p, k2) \<Rightarrow> (Panicked p, k2)
                    | (Failed err, k2) \<Rightarrow> (Failed (RefiningPersona iter err), k2)
                    | (Returned refined, k2) \<Rightarrow>
                        runLoop env heldOut (iter + 1) result' refined k2)
                 else runLoop env heldOut (iter + 1) result' current k1))
      else (Returned (result, Some current), k))"
  by pat_completeness auto
termination
  by (relation "measure (\<lambda>(env, heldOut, iter, result, current, k).
                            nat (MaxIterations + 1 - iter))") auto

declare runLoop.simps [simp del]

text \<open>
  \<open>Benchmarker.Run\<close>; \<open>persona\<close> is a pointer. Without held-out reviews it returns the
  sentinel result with \<open>FinalScore = -1\<close> and the pointer it was given; otherwise
  \<open>clonePersona\<close> copies the persona (a nil pointer panics) and the loop starts.
\<close>

definition Run ::
  "bench_env \<Rightarrow> Persona option \<Rightarrow> HeldOutReview list \<Rightarrow> nat
     \<Rightarrow> (Result \<times> Persona option) outcome \<times> nat" where
  "Run env persona heldOut k =
     (if length heldOut = 0
      then (Returned (\<lparr>FinalScore = Num (F64 (- 1) 0), Iterations = 0, History = []\<rparr>,
                      persona), k)
      else (case persona of
              None \<Rightarrow> (Panicked NilPointerDereference, k)
            | Some p \<Rightarrow>
                runLoop env heldOut 1
                  \<lparr>FinalScore = Num (F64 0 0), Iterations = 0, History = []\<rparr> p k))"

text \<open>
  The grader's scores: \<open>\<sigma> j s\<close> is the score given in iteration \<open>j\<close> (from 1) to the
  held-out review \<open>s\<close> (from 0). An iteration makes two calls for each of the \<open>n\<close>
  reviews (the imitation, then the comparison) and, when it refines, one more. The backend
  answers with these scores when every imitation call returns a text, every comparison
  call returns a text that parses to the score \<open>\<sigma> j s\<close>, and every refinement call
  returns a text that \<open>ParseSynthesis\<close> accepts.
\<close>

definition graderAnswers :: "bench_env \<Rightarrow> nat \<Rightarrow> (nat \<Rightarrow> nat \<Rightarrow> float64) \<Rightarrow> bool" where
  "graderAnswers env n \<sigma> \<longleftrightarrow>
     (\<forall>j < 5. \<forall>s < n. \<forall>prompt.
        \<exists>generated. Complete env (j * (2 * n + 1) + 2 * s) dryRunSystemPrompt prompt
                       = Inr generated)
     \<and> (\<forall>j < 5. \<forall>s < n. \<forall>prompt.
          \<exists>raw fb. Complete env (j * (2 * n + 1) + 2 * s + 1) compareSystemPrompt prompt = Inr raw
                  \<and> parseComparisonResult env raw
                      = Returned \<lparr>score = \<sigma> (j + 1) s, feedback = fb\<rparr>)
     \<and> (\<forall>j < 4. \<forall>prompt.
          \<exists>raw synthesis. Complete env (j * (2 * n + 1) + 2 * n) refineSystemPrompt prompt = Inr raw
                  \<and> ParseSynthesis (json env) raw = Inr (Inr synthesis))"

text \<open>The average score of iteration \<open>j\<close> over the \<open>n\<close> held-out reviews, as the code adds
  and divides, and whether it reaches the target.\<close>

definition averageScore :: "(nat \<Rightarrow> nat \<Rightarrow> float64) \<Rightarrow> nat \<Rightarrow> nat \<Rightarrow> float64" where
  "averageScore \<sigma> n j =
     float64_div (foldl float64_add (Num (F64 0 0)) (map (\<sigma> j) [0..<n]))
       (float64_of_int (int n))"

definition reachesTarget :: "(nat \<Rightarrow> nat \<Rightarrow> float64) \<Rightarrow> nat \<Rightarrow> nat \<Rightarrow> bool" where
  "reachesTarget \<sigma> n j \<longleftrightarrow> float64_ge (averageScore \<sigma> n j) TargetScore"

text \<open>
  The smaller of 5 and the index of the first iteration whose average score reaches the
  target.
\<close>

definition expectedIterations :: "(nat \<Rightarrow> nat \<Rightarrow> float64) \<Rightarrow> nat \<Rightarrow> nat" where
  "expectedIterations \<sigma> n =
     (case filter (reachesTarget \<sigma> n) [1, 2, 3, 4, 5] of [] \<Rightarrow> 5 | j # js \<Rightarrow> j)"

text \<open>
  What the history of a run records: iteration \<open>i + 1\<close> at position \<open>i\<close>, with the score
  the grader gave to each held-out review and their average.
\<close>

definition recorded ::
  "(nat \<Rightarrow> nat \<Rightarrow> float64) \<Rightarrow> HeldOutReview list \<Rightarrow> IterationResult list \<Rightarrow> bool" where
  "recorded \<sigma> heldOut H \<longleftrightarrow>
     (\<forall>i < length H. Iteration (H ! i) = int i + 1
        \<and> map Original (Pairs (H ! i)) = map HBody heldOut
        \<and> map PScore (Pairs (H ! i)) = map (\<sigma> (i + 1)) [0..<length heldOut]
        \<and> Score (H ! i) = averageScore \<sigma> (length heldOut) (i + 1))"

text \<open>
  An example backend for two held-out reviews: the imitation is always the same text, the
  grader gives 60 to both reviews in the first iteration (the calls before the fifth) and
  90 afterwards, and the refinement returns an empty JSON object. The JSON library of the
  example knows these texts only.
\<close>

definition quoted :: "string \<Rightarrow> string" where
  "quoted s = CHR 0x22 # s @ [CHR 0x22]"

definition comparisonText :: "string \<Rightarrow> string \<Rightarrow> string" where
  "comparisonText sc fb =
     ''{'' @ quoted ''score'' @ '': '' @ sc @ '', '' @ quoted ''feedback'' @ '': ''
       @ quoted fb @ ''}''"

definition emptySynthesis :: SynthesisResult where
  "emptySynthesis =
     \<lparr>CodingPhilosophy = [], CodeStyleRules = [], ReviewPriorities = [], ReviewVoice = [],
      CommunicationPatterns = [], TestingPhilosophy = [], DistinctiveTraits = [],
      DeveloperInterests = [], ProjectPatterns = [], CollaborationStyle = []\<rparr>"

definition example_json :: json_lib where
  "example_json =
     \<lparr>UnmarshalRawMap = (\<lambda>text. if text = ''{}'' then Inr [] else Inl ''unexpected input''),
      UnmarshalStrings = (\<lambda>text. Inl ''unexpected input''),
      MarshalString = quoted,
      MarshalRawMap = (\<lambda>m. if m = [] then Inr ''{}'' else Inl ''unexpected input''),
      UnmarshalSynthesis =
        (\<lambda>text. if text = ''{}'' then Inr emptySynthesis else Inl ''unexpected input'')\<rparr>"

definition example_backend :: bench_env where
  "example_backend =
     \<lparr>Complete = (\<lambda>k system prompt.
        case system of
          dryRunSystemPrompt \<Rightarrow> Inr ''nit: wrap the error''
        | compareSystemPrompt \<Rightarrow>
            Inr (if k < 5 then comparisonText ''60'' ''too formal''
                 else comparisonText ''90'' ''close'')
        | refineSystemPrompt \<Rightarrow> Inr ''{}''),
      Sprintf = (\<lambda>format args. []),
      decodeComparison = (\<lambda>text parsed.
        if text = comparisonText ''60'' ''too formal''
        then (None, \<lparr>ScoreField = float64_of_int 60, FeedbackField = ''too formal''\<rparr>)
        else if text = comparisonText ''90'' ''close''
        then (None, \<lparr>ScoreField = float64_of_int 90, FeedbackField = ''close''\<rparr>)
        else (Some ''unexpected input'', parsed)),
      json = example_json\<rparr>"

definition example_scores :: "nat \<Rightarrow> nat \<Rightarrow> float64" where
  "example_scores j s = (if j = 1 then float64_of_int 60 else float64_of_int 90)"

definition example_persona :: Persona where
  "example_persona =
     \<lparr>Username = ''dev'', CodeStyle = [], ReviewStyle = [], Communication = [],
      DeveloperIdentity = [], Synthesis = Some emptySynthesis\<rparr>"

definition example_heldOut :: "HeldOutReview list" where
  "example_heldOut =
     [\<lparr>RepoFullName = ''o/r'', HBody = ''wrap this error'', HPath = ''a.go'',
       HDiffHunk = ''@@ -1 +1 @@''\<rparr>,
      \<lparr>RepoFullName = ''o/r'', HBody = ''add a test'', HPath = ''b.go'',
       HDiffHunk = ''@@ -2 +2 @@''\<rparr>]"

section \<open>Properties of Truncate\<close>

lemma walk_back_in_range:
  "c < length s \<Longrightarrow> \<exists>d. walk_back s c = Inr d \<and> d \<le> c
     \<and> (d = 0 \<or> \<not> is_continuation (s ! d))
     \<and> (\<forall>k. d < k \<and> k \<le> c \<longrightarrow> is_continuation (s ! k))"
proof (induction c)
  case 0
  then show ?case by simp
next
  case (Suc c)
  show ?case
  proof (cases "is_continuation (s ! Suc c)")
    case True
    from Suc obtain d where d: "walk_back s c = Inr d" "d \<le> c"
        "d = 0 \<or> \<not> is_continuation (s ! d)"
        "\<forall>k. d < k \<and> k \<le> c \<longrightarrow> is_continuation (s ! k)"
      by auto
    have "\<forall>k. d < k \<and> k \<le> Suc c \<longrightarrow> is_continuation (s ! k)"
      using d(4) True by (auto simp: le_Suc_eq)
    with d True Suc.prems show ?thesis by auto
  next
    case False
    with Suc.prems show ?thesis by auto
  qed
qed

lemma walk_back_stop:
  "c < length s \<Longrightarrow> c = 0 \<or> \<not> is_continuation (s ! c) \<Longrightarrow> walk_back s c = Inr c"
  by (cases c) auto

lemma Truncate_cut:
  assumes "0 \<le> m" and "m < int (length s)"
  shows "\<exists>d. walk_back s (nat m) = Inr d \<and> Truncate s m suf = Inr (take d s @ suf)
           \<and> d \<le> nat m \<and> (d = 0 \<or> \<not> is_continuation (s ! d))
           \<and> (\<forall>k. d < k \<and> k \<le> nat m \<longrightarrow> is_continuation (s ! k))"
proof -
  from assms have "nat m < length s" by linarith
  from walk_back_in_range [OF this] obtain d where d: "walk_back s (nat m) = Inr d"
      "d \<le> nat m" "d = 0 \<or> \<not> is_continuation (s ! d)"
      "\<forall>k. d < k \<and> k \<le> nat m \<longrightarrow> is_continuation (s ! k)"
    by blast
  from assms d(1) have "Truncate s m suf = Inr (take d s @ suf)"
    by (simp add: Truncate_def)
  with d show ?thesis by blast
qed

lemma mb_seq_not_split:
  assumes "mb_seq s i j" and "d = 0 \<or> \<not> is_continuation (s ! d)"
  shows "j \<le> d \<or> d \<le> i"
proof (rule ccontr)
  assume "\<not> (j \<le> d \<or> d \<le> i)"
  then have "d \<in> {Suc i..<j}" by auto
  with assms(1) have "is_continuation (s ! d)" by (simp add: mb_seq_def)
  moreover from \<open>d \<in> {Suc i..<j}\<close> have "d \<noteq> 0" by auto
  ultimately show False using assms(2) by simp
qed

lemma Truncate_emoji: "Truncate emoji_input 3 ''!'' = Inr ''a!''"
  by code_simp

text \<open>
  C8. Truncate never splits a multi-byte UTF-8 sequence. A string of at most \<open>m\<close> bytes is
  returned whole. A longer string with a budget \<open>m \<ge> 0\<close> is cut at the position \<open>d\<close>
  reached by walking back from \<open>m\<close> while the byte is a continuation byte; the result is
  the first \<open>d\<close> bytes followed by the suffix, and every multi-byte sequence of the input
  (positions \<open>i\<close> to \<open>j - 1\<close>) lies wholly before the cut or wholly after it. A negative
  budget makes the slice panic, so nothing is returned and nothing is split. The string
  \<open>"a\xf0\x9f\x98\x80b"\<close> cut at 3 bytes with suffix \<open>"!"\<close> gives \<open>"a!"\<close>.
\<close>

theorem Truncate_never_splits:
  "(int (length s) \<le> m \<longrightarrow> Truncate s m suf = Inr s)
   \<and> (m < 0 \<and> m < int (length s) \<longrightarrow> Truncate s m suf = Inl SliceBoundsOutOfRange)
   \<and> (0 \<le> m \<and> m < int (length s) \<longrightarrow>
        (\<exists>d. walk_back s (nat m) = Inr d \<and> d \<le> nat m
            \<and> Truncate s m suf = Inr (take d s @ suf)
            \<and> (\<forall>k. d < k \<and> k \<le> nat m \<longrightarrow> is_continuation (s ! k))
            \<and> (d = 0 \<or> \<not> is_continuation (s ! d))
            \<and> (\<forall>i j. mb_seq s i j \<longrightarrow> j \<le> d \<or> d \<le> i)))
   \<and> Truncate emoji_input 3 ''!'' = Inr ''a!''"
proof (intro conjI impI)
  assume "int (length s) \<le> m"
  then show "Truncate s m suf = Inr s" by (simp add: Truncate_def)
next
  assume "m < 0 \<and> m < int (length s)"
  then show "Truncate s m suf = Inl SliceBoundsOutOfRange" by (simp add: Truncate_def)
next
  assume a: "0 \<le> m \<and> m < int (length s)"
  then obtain d where d: "walk_back s (nat m) = Inr d"
      "Truncate s m suf = Inr (take d s @ suf)" "d \<le> nat m"
      "d = 0 \<or> \<not> is_continuation (s ! d)"
      "\<forall>k. d < k \<and> k \<le> nat m \<longrightarrow> is_continuation (s ! k)"
    using Truncate_cut [of m s suf] by blast
  have "\<forall>i j. mb_seq s i j \<longrightarrow> j \<le> d \<or> d \<le> i"
    using mb_seq_not_split d(4) by blast
  with d show "\<exists>d. walk_back s (nat m) = Inr d \<and> d \<le> nat m
            \<and> Truncate s m suf = Inr (take d s @ suf)
            \<and> (\<forall>k. d < k \<and> k \<le> nat m \<longrightarrow> is_continuation (s ! k))
            \<and> (d = 0 \<or> \<not> is_continuation (s ! d))
            \<and> (\<forall>i j. mb_seq s i j \<longrightarrow> j \<le> d \<or> d \<le> i)"
    by blast
next
  show "Truncate emoji_input 3 ''!'' = Inr ''a!''" by (rule Truncate_emoji)
qed

text \<open>
  The theorem at the test input: the 4-byte sequence at positions 1 to 4 is a multi-byte
  sequence, the walk from 3 stops at 1, and the sequence is wholly after the cut.
\<close>

theorem Truncate_never_splits_witness:
  "(0::int) \<le> 3 \<and> 3 < int (length emoji_input) \<and> mb_seq emoji_input 1 5
   \<and> walk_back emoji_input (nat 3) = Inr 1
   \<and> Truncate emoji_input 3 ''!'' = Inr (take 1 emoji_input @ ''!'')
   \<and> ((5::nat) \<le> 1 \<or> (1::nat) \<le> 1)"
proof -
  have len: "(0::int) \<le> 3 \<and> 3 < int (length emoji_input)"
    by (simp add: emoji_input_def)
  have seq: "mb_seq emoji_input 1 5"
    by code_simp
  have wb: "walk_back emoji_input (nat 3) = Inr 1"
    by code_simp
  from Truncate_never_splits [of emoji_input 3 "''!''"] len
  obtain d where d: "walk_back emoji_input (nat 3) = Inr d"
      "Truncate emoji_input 3 ''!'' = Inr (take d emoji_input @ ''!'')"
      "\<forall>i j. mb_seq emoji_input i j \<longrightarrow> j \<le> d \<or> d \<le> i"
    by blast
  from d(1) wb have "d = 1" by simp
  with d seq len wb show ?thesis by simp
qed

text \<open>
  C9 as stated fails: \<open>"ab\xc3\xa9cd"\<close> cut at 3 bytes with the suffix \<open>"..."\<close> gives
  \<open>"ab..."\<close> (the cut walks back to 2), and cutting that again at 3 bytes lands inside
  the suffix and gives \<open>"ab...."\<close>.
\<close>

theorem Truncate_idempotent_counterexample:
  "Truncate eacute_input 3 ''...'' = Inr ''ab...''
   \<and> Truncate_twice eacute_input 3 ''...'' = Inr ''ab....''
   \<and> Truncate_twice eacute_input 3 ''...'' \<noteq> Truncate eacute_input 3 ''...''"
  by code_simp

text \<open>
  C9, amended. Truncating twice equals truncating once whenever the first result fits the
  budget, or the first cut did not walk back (the string fits, or the byte at the budget is
  not a continuation byte) and the suffix does not start with a continuation byte.
\<close>

theorem Truncate_idempotent:
  assumes "(\<exists>r. Truncate s m suf = Inr r \<and> int (length r) \<le> m)
           \<or> ((int (length s) \<le> m \<or> \<not> is_continuation (s ! nat m))
                \<and> (suf = [] \<or> \<not> is_continuation (hd suf)))"
  shows "Truncate_twice s m suf = Truncate s m suf"
proof -
  consider (fits) r where "Truncate s m suf = Inr r" "int (length r) \<le> m"
    | (whole) "int (length s) \<le> m"
    | (neg) "m < int (length s)" "m < 0"
    | (stop) "m < int (length s)" "0 \<le> m" "\<not> is_continuation (s ! nat m)"
        "suf = [] \<or> \<not> is_continuation (hd suf)"
    using assms by fastforce
  then show ?thesis
  proof cases
    case fits
    then show ?thesis by (simp add: Truncate_twice_def Truncate_def)
  next
    case whole
    then show ?thesis by (simp add: Truncate_twice_def Truncate_def)
  next
    case neg
    then show ?thesis by (simp add: Truncate_twice_def Truncate_def)
  next
    case stop
    let ?n = "nat m"
    let ?r = "take ?n s @ suf"
    from stop have n: "?n < length s" by linarith
    have wb: "walk_back s ?n = Inr ?n"
      using n stop(3) by (intro walk_back_stop) auto
    with stop have first: "Truncate s m suf = Inr ?r"
      by (simp add: Truncate_def)
    have len: "length ?r = ?n + length suf" using n by simp
    show ?thesis
    proof (cases "suf = []")
      case True
      with len stop(2) have "int (length ?r) \<le> m" by simp
      then have "Truncate ?r m suf = Inr ?r" by (simp add: Truncate_def)
      with first show ?thesis by (simp add: Truncate_twice_def)
    next
      case False
      with stop(4) have nc: "\<not> is_continuation (hd suf)" by simp
      from False have long: "?n < length ?r" using len by simp
      have "?r ! ?n = hd suf"
        using False n by (simp add: nth_append hd_conv_nth)
      with nc long have "walk_back ?r ?n = Inr ?n"
        by (intro walk_back_stop) auto
      moreover have "take ?n ?r = take ?n s" using n by simp
      moreover from long stop(2) have "\<not> int (length ?r) \<le> m" by linarith
      ultimately have "Truncate ?r m suf = Inr ?r"
        using stop(2) by (simp add: Truncate_def)
      with first show ?thesis by (simp add: Truncate_twice_def)
    qed
  qed
qed

text \<open>The amended claim at \<open>"hello world"\<close>, 5 bytes, suffix \<open>"..."\<close>.\<close>

theorem Truncate_idempotent_witness:
  "\<not> is_continuation (''hello world'' ! nat 5) \<and> \<not> is_continuation (hd ''...'')
   \<and> Truncate ''hello world'' 5 ''...'' = Inr ''hello...''
   \<and> Truncate_twice ''hello world'' 5 ''...'' = Inr ''hello...''"
proof -
  have h: "\<not> is_continuation (''hello world'' ! nat 5) \<and> \<not> is_continuation (hd ''...'')"
    by code_simp
  have t: "Truncate ''hello world'' 5 ''...'' = Inr ''hello...''"
    by code_simp
  from h have "Truncate_twice ''hello world'' 5 ''...'' = Truncate ''hello world'' 5 ''...''"
    by (intro Truncate_idempotent) simp
  with h t show ?thesis by simp
qed

section \<open>Properties of SplitReviews\<close>

lemma splitComments_spec:
  "splitComments mx fn rcs (ho, kept) = (ho', kept') \<Longrightarrow>
   \<exists>rm k2. ho' = ho @ map (heldOutOf fn) rm \<and> kept' = kept @ k2
      \<and> mset rcs = mset k2 + mset rm \<and> subseq k2 rcs \<and> subseq rm rcs
      \<and> (\<forall>c \<in> set rm. DiffHunk c \<noteq> [])
      \<and> int (length ho') \<le> max (int (length ho)) mx"
proof (induction rcs arbitrary: ho kept)
  case Nil
  then show ?case by auto
next
  case (Cons rc rcs)
  show ?case
  proof (cases "int (length ho) < mx \<and> DiffHunk rc \<noteq> []")
    case True
    with Cons.prems have "splitComments mx fn rcs (ho @ [heldOutOf fn rc], kept) = (ho', kept')"
      by simp
    from Cons.IH [OF this] obtain rm k2 where
      "ho' = (ho @ [heldOutOf fn rc]) @ map (heldOutOf fn) rm" "kept' = kept @ k2"
      "mset rcs = mset k2 + mset rm" "subseq k2 rcs" "subseq rm rcs"
      "\<forall>c \<in> set rm. DiffHunk c \<noteq> []"
      "int (length ho') \<le> max (int (length (ho @ [heldOutOf fn rc]))) mx"
      by blast
    with True show ?thesis
      by (intro exI [of _ "rc # rm"] exI [of _ k2]) auto
  next
    case False
    with Cons.prems have "splitComments mx fn rcs (ho, kept @ [rc]) = (ho', kept')"
      by simp
    from Cons.IH [OF this] obtain rm k2 where
      "ho' = ho @ map (heldOutOf fn) rm" "kept' = (kept @ [rc]) @ k2"
      "mset rcs = mset k2 + mset rm" "subseq k2 rcs" "subseq rm rcs"
      "\<forall>c \<in> set rm. DiffHunk c \<noteq> []"
      "int (length ho') \<le> max (int (length ho)) mx"
      by blast
    then show ?thesis
      by (intro exI [of _ rm] exI [of _ "rc # k2"]) auto
  qed
qed

lemma splitRepos_spec:
  "splitRepos mx repos ho = (ho', repos') \<Longrightarrow>
   \<exists>removed. length removed = length repos \<and> length repos' = length repos
      \<and> ho' = ho @ heldOutFrom repos removed
      \<and> int (length ho') \<le> max (int (length ho)) mx
      \<and> list_all2 (\<lambda>repo (repo', rm). repo_split repo repo' rm) repos (zip repos' removed)"
proof (induction repos arbitrary: ho ho' repos')
  case Nil
  then show ?case by (simp add: heldOutFrom_def)
next
  case (Cons repo repos)
  obtain h1 kept where sc: "splitComments mx (FullName repo) (ReviewComments repo) (ho, []) = (h1, kept)"
    by (cases "splitComments mx (FullName repo) (ReviewComments repo) (ho, [])") 
  obtain h2 rs where sr: "splitRepos mx repos h1 = (h2, rs)"
    by (cases "splitRepos mx repos h1")
  from Cons.prems sc sr have res: "ho' = h2" "repos' = repo\<lparr>ReviewComments := kept\<rparr> # rs"
    by simp_all
  from splitComments_spec [OF sc] obtain rm where rm:
      "h1 = ho @ map (heldOutOf (FullName repo)) rm"
      "mset (ReviewComments repo) = mset kept + mset rm"
      "subseq kept (ReviewComments repo)" "subseq rm (ReviewComments repo)"
      "\<forall>c \<in> set rm. DiffHunk c \<noteq> []"
      "int (length h1) \<le> max (int (length ho)) mx"
    by auto
  from Cons.IH [OF sr] obtain removed where rest:
      "length removed = length repos" "length rs = length repos"
      "h2 = h1 @ heldOutFrom repos removed"
      "int (length h2) \<le> max (int (length h1)) mx"
      "list_all2 (\<lambda>repo (repo', rm). repo_split repo repo' rm) repos (zip rs removed)"
    by blast
  have "repo_split repo (repo\<lparr>ReviewComments := kept\<rparr>) rm"
    using rm by (simp add: repo_split_def)
  moreover have "ho' = ho @ heldOutFrom (repo # repos) (rm # removed)"
    using res rm(1) rest(3) by (simp add: heldOutFrom_def)
  moreover have "int (length ho') \<le> max (int (length ho)) mx"
    using res(1) rm(6) rest(4) by (simp add: max_def split: if_splits)
  ultimately show ?case
    using res rest by (intro exI [of _ "rm # removed"]) simp
qed

lemma count_partition_disjoint:
  assumes "distinct xs" and "mset xs = mset ks + mset rm"
  shows "set ks \<inter> set rm = {}"
  by (metis assms(1,2) distinct_append mset_append mset_eq_imp_distinct_iff)

lemma splitComments_hunks:
  "splitComments mx fn rcs (ho, kept) = (ho', kept') \<Longrightarrow>
   \<forall>h \<in> set ho. HDiffHunk h \<noteq> [] \<Longrightarrow> \<forall>h \<in> set ho'. HDiffHunk h \<noteq> []"
proof (induction rcs arbitrary: ho kept)
  case Nil
  then show ?case by simp
next
  case (Cons rc rcs)
  show ?case
  proof (cases "int (length ho) < mx \<and> DiffHunk rc \<noteq> []")
    case True
    with Cons.prems(1) have "splitComments mx fn rcs (ho @ [heldOutOf fn rc], kept) = (ho', kept')"
      by simp
    moreover from True have "HDiffHunk (heldOutOf fn rc) \<noteq> []"
      by (simp add: heldOutOf_def)
    with Cons.prems(2) have "\<forall>h \<in> set (ho @ [heldOutOf fn rc]). HDiffHunk h \<noteq> []"
      by simp
    ultimately show ?thesis by (rule Cons.IH)
  next
    case False
    with Cons.prems(1) have "splitComments mx fn rcs (ho, kept @ [rc]) = (ho', kept')"
      by simp
    then show ?thesis using Cons.prems(2) by (rule Cons.IH)
  qed
qed

lemma splitRepos_hunks:
  "splitRepos mx repos ho = (ho', repos') \<Longrightarrow>
   \<forall>h \<in> set ho. HDiffHunk h \<noteq> [] \<Longrightarrow> \<forall>h \<in> set ho'. HDiffHunk h \<noteq> []"
proof (induction repos arbitrary: ho ho' repos')
  case Nil
  then show ?case by simp
next
  case (Cons repo repos)
  obtain h1 kept where sc: "splitComments mx (FullName repo) (ReviewComments repo) (ho, []) = (h1, kept)"
    by (cases "splitComments mx (FullName repo) (ReviewComments repo) (ho, [])")
  obtain h2 rs where sr: "splitRepos mx repos h1 = (h2, rs)"
    by (cases "splitRepos mx repos h1")
  from Cons.prems(1) sc sr have "ho' = h2" by simp
  moreover from splitComments_hunks [OF sc Cons.prems(2)] have "\<forall>h \<in> set h1. HDiffHunk h \<noteq> []" .
  ultimately show ?case using Cons.IH [OF sr] by simp
qed

lemma repo_split_mset:
  "length repos' = length repos \<Longrightarrow> length removed = length repos \<Longrightarrow>
   list_all2 (\<lambda>repo (repo', rm). repo_split repo repo' rm) repos (zip repos' removed) \<Longrightarrow>
   mset (concat (map ReviewComments repos))
     = mset (concat (map ReviewComments repos')) + mset (concat removed)"
proof (induction repos arbitrary: repos' removed)
  case Nil
  then show ?case by simp
next
  case (Cons repo repos)
  from Cons.prems obtain r' rs' where r': "repos' = r' # rs'" by (cases repos') auto
  from Cons.prems obtain rm rms where rm: "removed = rm # rms" by (cases removed) auto
  from Cons.prems r' rm have "repo_split repo r' rm"
    and "list_all2 (\<lambda>repo (repo', rm). repo_split repo repo' rm) repos (zip rs' rms)"
    and "length rs' = length repos" and "length rms = length repos"
    by simp_all
  with Cons.IH [of rs' rms] r' rm show ?case
    by (simp add: repo_split_def)
qed

lemma heldOutFrom_bodies:
  "length removed = length repos \<Longrightarrow>
   map HBody (heldOutFrom repos removed) = map Body (concat removed)"
proof (induction repos removed rule: list_induct2')
  case (4 r rs rm rms)
  then show ?case by (simp add: heldOutFrom_def heldOutOf_def comp_def)
qed (simp_all add: heldOutFrom_def)

text \<open>
  C6 as stated fails when a comment occurs twice: with \<open>max = 1\<close> the first occurrence is
  held out and the second, which no longer passes \<open>len(heldOut) < max\<close>, is kept, so the
  held-out comment, and its body, is still in the repository's list after the call.
\<close>

theorem SplitReviews_counterexample:
  "SplitReviews dup_example 1 = ([heldOutOf ''u/a'' dup_comment], dup_example_after)
   \<and> dup_comment \<in> set (ReviewComments (hd (Repos dup_example_after)))
   \<and> HBody (heldOutOf ''u/a'' dup_comment)
        \<in> set (map Body (ReviewComments (hd (Repos dup_example_after))))"
  by (simp add: SplitReviews_def dup_example_def dup_example_after_def dup_comment_def
      rc_example_def heldOutOf_def)

text \<open>
  C6, amended. \<open>SplitReviews\<close> removes at most \<open>max\<close> review comments (none when \<open>max\<close> is
  not positive), every held-out review has a non-empty diff hunk, and the held-out reviews
  are exactly the removed comments, repository by repository and in order. Each repository
  keeps all its other comments in their original order and nothing else of it changes: its
  old list is the kept list together with the removed comments. A body occurs among the
  comments before the call as often as among the kept comments and the held-out reviews
  together: a held-out body is still in a list afterwards only through another comment
  with the same body, and never when the bodies of the crawl result are pairwise different.
\<close>

theorem SplitReviews_held_out:
  assumes "SplitReviews data mx = (heldOut, data')"
  shows "int (length heldOut) \<le> max 0 mx
     \<and> (\<forall>h \<in> set heldOut. HDiffHunk h \<noteq> [])
     \<and> data' = data\<lparr>Repos := Repos data'\<rparr>
     \<and> length (Repos data') = length (Repos data)
     \<and> (\<exists>removed. length removed = length (Repos data)
          \<and> heldOut = heldOutFrom (Repos data) removed
          \<and> list_all2 (\<lambda>repo (repo', rm). repo_split repo repo' rm)
                (Repos data) (zip (Repos data') removed))
     \<and> mset (map Body (concat (map ReviewComments (Repos data))))
         = mset (map Body (concat (map ReviewComments (Repos data')))) + mset (map HBody heldOut)
     \<and> (distinct (map Body (concat (map ReviewComments (Repos data)))) \<longrightarrow>
          set (map HBody heldOut)
            \<inter> set (map Body (concat (map ReviewComments (Repos data')))) = {})"
proof -
  obtain h repos' where sr0: "splitRepos mx (Repos data) [] = (h, repos')"
    by (cases "splitRepos mx (Repos data) []")
  with assms have h: "heldOut = h" and d': "data' = data\<lparr>Repos := repos'\<rparr>"
    by (simp_all add: SplitReviews_def)
  from sr0 h have sr: "splitRepos mx (Repos data) [] = (heldOut, repos')" by simp
  from splitRepos_spec [OF sr] obtain removed where rm:
      "length removed = length (Repos data)" "length repos' = length (Repos data)"
      "heldOut = heldOutFrom (Repos data) removed"
      "int (length heldOut) \<le> max (int (length ([]::HeldOutReview list))) mx"
      "list_all2 (\<lambda>repo (repo', rm). repo_split repo repo' rm) (Repos data) (zip repos' removed)"
    by auto
  have hunks: "\<forall>h \<in> set heldOut. HDiffHunk h \<noteq> []"
    using splitRepos_hunks [OF sr] by simp
  from d' have r': "Repos data' = repos'" by simp
  have bodies: "map HBody heldOut = map Body (concat removed)"
    unfolding rm(3) using rm(1) by (rule heldOutFrom_bodies)
  have "mset (concat (map ReviewComments (Repos data)))
      = mset (concat (map ReviewComments repos')) + mset (concat removed)"
    by (rule repo_split_mset [OF rm(2) rm(1) rm(5)])
  then have "mset (map Body (concat (map ReviewComments (Repos data))))
      = mset (map Body (concat (map ReviewComments repos'))) + mset (map Body (concat removed))"
    by (metis image_mset_union mset_map)
  then have count: "mset (map Body (concat (map ReviewComments (Repos data))))
      = mset (map Body (concat (map ReviewComments (Repos data')))) + mset (map HBody heldOut)"
    unfolding r' bodies .
  have disj: "set (map HBody heldOut)
      \<inter> set (map Body (concat (map ReviewComments (Repos data')))) = {}"
    if "distinct (map Body (concat (map ReviewComments (Repos data))))"
    using count_partition_disjoint [OF that count] by blast
  have "int (length heldOut) \<le> max 0 mx" using rm(4) by simp
  moreover have "data' = data\<lparr>Repos := Repos data'\<rparr>" using d' by simp
  moreover have "length (Repos data') = length (Repos data)" using r' rm(2) by simp
  moreover have "\<exists>removed. length removed = length (Repos data)
          \<and> heldOut = heldOutFrom (Repos data) removed
          \<and> list_all2 (\<lambda>repo (repo', rm). repo_split repo repo' rm)
                (Repos data) (zip (Repos data') removed)"
    using rm(1,3,5) unfolding r' by blast
  ultimately show ?thesis using hunks count disj by blast
qed

text \<open>The amended claim at the example crawl result with \<open>max = 2\<close>.\<close>

theorem SplitReviews_held_out_witness:
  "SplitReviews split_example 2 = (split_example_heldOut, split_example_after)
   \<and> distinct (map Body (concat (map ReviewComments (Repos split_example))))
   \<and> int (length split_example_heldOut) \<le> max 0 2
   \<and> [] \<notin> set (map HDiffHunk split_example_heldOut)
   \<and> length (Repos split_example_after) = length (Repos split_example)
   \<and> set (map HBody split_example_heldOut)
        \<inter> set (map Body (concat (map ReviewComments (Repos split_example_after)))) = {}"
proof -
  have run: "SplitReviews split_example 2 = (split_example_heldOut, split_example_after)"
    by (simp add: SplitReviews_def split_example_def split_example_after_def
        split_example_heldOut_def rc_example_def heldOutOf_def)
  have dist: "distinct (map Body (concat (map ReviewComments (Repos split_example))))"
    by (simp add: split_example_def rc_example_def)
  from SplitReviews_held_out [OF run] dist
  have "int (length split_example_heldOut) \<le> max 0 2"
    and "\<forall>h \<in> set split_example_heldOut. HDiffHunk h \<noteq> []"
    and "length (Repos split_example_after) = length (Repos split_example)"
    and "set (map HBody split_example_heldOut)
        \<inter> set (map Body (concat (map ReviewComments (Repos split_example_after)))) = {}"
    by blast+
  with run dist show ?thesis by auto
qed

section \<open>ParseSynthesis on empty input\<close>

text \<open>
  C10. \<open>ParseSynthesis\<close> is not total: on the empty string, and on a string of white space
  only, the read \<open>text[0]\<close> is out of range and the call panics, whatever the JSON library
  does. (\<open>stripCodeFences\<close> in the benchmark package guards the same read with
  \<open>len(text) > 0\<close>.)
\<close>

theorem ParseSynthesis_panics_on_empty:
  "ParseSynthesis j [] = Inl IndexOutOfRange
   \<and> ParseSynthesis j [CHR '' '', CHR 0x0A, CHR '' ''] = Inl IndexOutOfRange"
  by (simp add: ParseSynthesis_def TrimSpace_def isSpace_def)

section \<open>Properties of the rate-limit transport\<close>

lemma Atoi_empty: "Atoi [] = None"
  by (simp add: Atoi_def parseDecimal_def)

lemma roundTripFrom_exhausted:
  "roundTripFrom e maxRetries = (Inl (RetriesExhausted maxRetries), [])"
  by (subst roundTripFrom.simps) simp

lemma roundTripFrom_limited:
  assumes "attempt < maxRetries" and "baseRoundTrip e attempt = Inr resp"
    and "StatusCode resp = 403 \<or> StatusCode resp = 429"
  shows "roundTripFrom e attempt =
     (case Atoi (HeaderGet resp ''Retry-After'') of
        None \<Rightarrow> (Inr resp, [])
      | Some secs \<Rightarrow>
          if secs \<le> 0 \<or> secs \<ge> 900 then (Inr resp, [])
          else if ctxDone e attempt then (Inl ContextError, [CloseBody, Sleep (secs * Second)])
          else (fst (roundTripFrom e (attempt + 1)),
                CloseBody # Sleep (secs * Second) # snd (roundTripFrom e (attempt + 1))))"
  using assms
  by (subst roundTripFrom.simps) (auto split: option.splits prod.splits)

lemma roundTripFrom_not_limited:
  assumes "attempt < maxRetries" and "baseRoundTrip e attempt = Inr resp"
    and "StatusCode resp \<noteq> 403" and "StatusCode resp \<noteq> 429"
  shows "roundTripFrom e attempt = proactivePause e attempt resp"
  using assms by (subst roundTripFrom.simps) simp

lemma roundTripFrom_retry:
  assumes "attempt < maxRetries" and "baseRoundTrip e attempt = Inr resp"
    and "rateLimited resp" and "retryAfter resp = Some secs" and "\<not> ctxDone e attempt"
  shows "roundTripFrom e attempt =
     (fst (roundTripFrom e (attempt + 1)),
      CloseBody # Sleep (secs * Second) # snd (roundTripFrom e (attempt + 1)))"
proof -
  from assms(4) have "Atoi (HeaderGet resp ''Retry-After'') = Some secs" "0 < secs" "secs < 900"
    by (auto simp: retryAfter_def split: option.splits if_splits)
  with roundTripFrom_limited [OF assms(1,2)] assms(3,5) show ?thesis
    by (simp add: rateLimited_def)
qed

text \<open>
  C4. For a rate-limited response (status 403 or 429) of any attempt: without a valid
  retry-after value (the header is absent, hence empty, or does not parse, or is not
  positive, or is at least 900 seconds) the response is returned as it is, with no error
  and no sleep. With a valid value the body is closed and the transport sleeps that many
  seconds; it then goes on to the next attempt, unless the context was cancelled during
  the sleep, which ends the call with the context's error. After three rate-limited
  attempts with valid values the call ends with the retries-exhausted error.
\<close>

theorem RoundTrip_rate_limited:
  "(attempt < maxRetries \<and> baseRoundTrip e attempt = Inr resp \<and> rateLimited resp \<longrightarrow>
      (retryAfter resp = None \<longrightarrow> roundTripFrom e attempt = (Inr resp, []))
      \<and> (\<forall>secs. retryAfter resp = Some secs \<longrightarrow>
            roundTripFrom e attempt =
              (if ctxDone e attempt then (Inl ContextError, [CloseBody, Sleep (secs * Second)])
               else (fst (roundTripFrom e (attempt + 1)),
                     CloseBody # Sleep (secs * Second) # snd (roundTripFrom e (attempt + 1))))))
   \<and> (retryAfter resp = None \<longleftrightarrow>
        (\<forall>secs. Atoi (HeaderGet resp ''Retry-After'') = Some secs \<longrightarrow> secs \<le> 0 \<or> 900 \<le> secs))
   \<and> Atoi [] = None
   \<and> (baseRoundTrip e 0 = Inr r0 \<and> baseRoundTrip e 1 = Inr r1 \<and> baseRoundTrip e 2 = Inr r2
        \<and> rateLimited r0 \<and> rateLimited r1 \<and> rateLimited r2
        \<and> retryAfter r0 = Some s0 \<and> retryAfter r1 = Some s1 \<and> retryAfter r2 = Some s2
        \<and> \<not> ctxDone e 0 \<and> \<not> ctxDone e 1 \<and> \<not> ctxDone e 2 \<longrightarrow>
        RoundTrip e =
          (Inl (RetriesExhausted 3),
           [CloseBody, Sleep (s0 * Second), CloseBody, Sleep (s1 * Second),
            CloseBody, Sleep (s2 * Second)]))"
proof (intro conjI impI allI)
  assume a: "attempt < maxRetries \<and> baseRoundTrip e attempt = Inr resp \<and> rateLimited resp"
  then have lim: "roundTripFrom e attempt =
     (case Atoi (HeaderGet resp ''Retry-After'') of
        None \<Rightarrow> (Inr resp, [])
      | Some secs \<Rightarrow>
          if secs \<le> 0 \<or> secs \<ge> 900 then (Inr resp, [])
          else if ctxDone e attempt then (Inl ContextError, [CloseBody, Sleep (secs * Second)])
          else (fst (roundTripFrom e (attempt + 1)),
                CloseBody # Sleep (secs * Second) # snd (roundTripFrom e (attempt + 1))))"
    by (intro roundTripFrom_limited) (simp_all add: rateLimited_def)
  {
    assume "retryAfter resp = None"
    with lim show "roundTripFrom e attempt = (Inr resp, [])"
      by (auto simp: retryAfter_def split: option.splits if_splits)
  }
  {
    fix secs
    assume "retryAfter resp = Some secs"
    with lim show "roundTripFrom e attempt =
        (if ctxDone e attempt then (Inl ContextError, [CloseBody, Sleep (secs * Second)])
         else (fst (roundTripFrom e (attempt + 1)),
               CloseBody # Sleep (secs * Second) # snd (roundTripFrom e (attempt + 1))))"
      by (auto simp: retryAfter_def split: option.splits if_splits)
  }
next
  show "retryAfter resp = None \<longleftrightarrow>
      (\<forall>secs. Atoi (HeaderGet resp ''Retry-After'') = Some secs \<longrightarrow> secs \<le> 0 \<or> 900 \<le> secs)"
    by (auto simp: retryAfter_def split: option.splits if_splits)
next
  show "Atoi [] = None" by (rule Atoi_empty)
next
  assume a: "baseRoundTrip e 0 = Inr r0 \<and> baseRoundTrip e 1 = Inr r1 \<and> baseRoundTrip e 2 = Inr r2
        \<and> rateLimited r0 \<and> rateLimited r1 \<and> rateLimited r2
        \<and> retryAfter r0 = Some s0 \<and> retryAfter r1 = Some s1 \<and> retryAfter r2 = Some s2
        \<and> \<not> ctxDone e 0 \<and> \<not> ctxDone e 1 \<and> \<not> ctxDone e 2"
  have three: "maxRetries = 3" by (simp add: maxRetries_def)
  have e3: "roundTripFrom e (Suc (Suc (Suc 0))) = (Inl (RetriesExhausted 3), [])"
    using roundTripFrom_exhausted [of e] by (simp add: three eval_nat_numeral)
  have e2: "roundTripFrom e (Suc (Suc 0)) =
      (Inl (RetriesExhausted 3), [CloseBody, Sleep (s2 * Second)])"
    using roundTripFrom_retry [of "Suc (Suc 0)" e r2 s2] a e3
    by (simp add: three eval_nat_numeral)
  have e1: "roundTripFrom e (Suc 0) =
      (Inl (RetriesExhausted 3), [CloseBody, Sleep (s1 * Second), CloseBody, Sleep (s2 * Second)])"
    using roundTripFrom_retry [of "Suc 0" e r1 s1] a e2
    by (simp add: three eval_nat_numeral)
  show "RoundTrip e =
      (Inl (RetriesExhausted 3),
       [CloseBody, Sleep (s0 * Second), CloseBody, Sleep (s1 * Second),
        CloseBody, Sleep (s2 * Second)])"
    using roundTripFrom_retry [of 0 e r0 s0] a e1
    by (simp add: three RoundTrip_def eval_nat_numeral)
qed

text \<open>
  The theorem at two environments: a response 429 with \<open>Retry-After: 2\<close> followed by a
  response 200 (one sleep of two seconds, then the second response is returned), and
  three responses 403 with \<open>Retry-After: 1\<close> (three sleeps, then the error).
\<close>

theorem RoundTrip_rate_limited_witness:
  "rateLimited (response 429 [(''Retry-After'', ''2'')])
   \<and> retryAfter (response 429 [(''Retry-After'', ''2'')]) = Some 2
   \<and> RoundTrip retry_env = (Inr (response 200 []), [CloseBody, Sleep (2 * Second)])
   \<and> rateLimited (response 403 [(''Retry-After'', ''1'')])
   \<and> retryAfter (response 403 [(''Retry-After'', ''1'')]) = Some 1
   \<and> RoundTrip exhausted_env =
       (Inl (RetriesExhausted 3),
        [CloseBody, Sleep (1 * Second), CloseBody, Sleep (1 * Second),
         CloseBody, Sleep (1 * Second)])"
proof -
  let ?r = "response 429 [(''Retry-After'', ''2'')]"
  let ?x = "response 403 [(''Retry-After'', ''1'')]"
  have r: "rateLimited ?r" "retryAfter ?r = Some 2"
    by (simp_all add: rateLimited_def retryAfter_def response_def HeaderGet_def Atoi_def
        parseDecimal_def isDigit_def digitsValue_def)
  have x: "rateLimited ?x" "retryAfter ?x = Some 1"
    by (simp_all add: rateLimited_def retryAfter_def response_def HeaderGet_def Atoi_def
        parseDecimal_def isDigit_def digitsValue_def)
  have base: "baseRoundTrip retry_env 0 = Inr ?r" "baseRoundTrip retry_env 1 = Inr (response 200 [])"
      "\<not> ctxDone retry_env 0" "(0::nat) < maxRetries" "(1::nat) < maxRetries"
    by (simp_all add: retry_env_def maxRetries_def)
  have second: "roundTripFrom retry_env (0 + 1) = (Inr (response 200 []), [])"
    using roundTripFrom_not_limited [of 1 retry_env "response 200 []"] base
    by (simp add: response_def proactivePause_def HeaderGet_def)
  have first: "RoundTrip retry_env = (Inr (response 200 []), [CloseBody, Sleep (2 * Second)])"
    using RoundTrip_rate_limited [of 0 retry_env ?r] r base second
    by (simp add: RoundTrip_def)
  have xs: "baseRoundTrip exhausted_env 0 = Inr ?x" "baseRoundTrip exhausted_env 1 = Inr ?x"
      "baseRoundTrip exhausted_env 2 = Inr ?x" "\<not> ctxDone exhausted_env 0"
      "\<not> ctxDone exhausted_env 1" "\<not> ctxDone exhausted_env 2"
    by (simp_all add: exhausted_env_def)
  have third: "RoundTrip exhausted_env =
       (Inl (RetriesExhausted 3),
        [CloseBody, Sleep (1 * Second), CloseBody, Sleep (1 * Second),
         CloseBody, Sleep (1 * Second)])"
    using RoundTrip_rate_limited [of _ exhausted_env _ ?x ?x ?x 1 1 1] x xs
    by blast
  from r x first third show ?thesis by blast
qed

text \<open>
  C5 as stated fails at a remaining count of exactly 10: with the reset 60 seconds ahead
  the transport sleeps 61 seconds, although 10 is not fewer than 10.
\<close>

theorem RoundTrip_proactive_counterexample:
  "\<not> rateLimited (quota_response ''10'' ''1000'')
   \<and> Atoi (HeaderGet (quota_response ''10'' ''1000'') ''X-RateLimit-Remaining'') = Some 10
   \<and> \<not> (10::int) < 10
   \<and> RoundTrip (quota_env ''10'' ''1000'')
       = (Inr (quota_response ''10'' ''1000''), [Sleep (61 * Second)])"
  by code_simp

text \<open>
  C5, amended. For a response that is not rate-limited, of any attempt: the transport
  sleeps exactly when the remaining-quota header parses as an integer of at most 10 and
  the reset-time header parses as a time after the clock and less than 15 minutes after
  it. It then sleeps for the time to the reset plus one second and returns the response,
  unless the context is cancelled during the sleep; then it closes the body and returns
  the context's error. In all other cases the response is returned without a sleep.
\<close>

theorem RoundTrip_proactive:
  assumes "attempt < maxRetries" and "baseRoundTrip e attempt = Inr resp"
    and "\<not> rateLimited resp"
  shows "roundTripFrom e attempt =
     (case pauseNeeded resp (clock e attempt) of
        None \<Rightarrow> (Inr resp, [])
      | Some wait \<Rightarrow>
          if ctxDone e attempt then (Inl ContextError, [Sleep (wait + Second), CloseBody])
          else (Inr resp, [Sleep (wait + Second)]))"
proof -
  from assms have "roundTripFrom e attempt = proactivePause e attempt resp"
    by (intro roundTripFrom_not_limited) (simp_all add: rateLimited_def)
  also have "\<dots> = (case pauseNeeded resp (clock e attempt) of
        None \<Rightarrow> (Inr resp, [])
      | Some wait \<Rightarrow>
          if ctxDone e attempt then (Inl ContextError, [Sleep (wait + Second), CloseBody])
          else (Inr resp, [Sleep (wait + Second)]))"
    by (cases "HeaderGet resp ''X-RateLimit-Remaining'' = []")
       (auto simp: proactivePause_def pauseNeeded_def Atoi_empty Let_def split: option.splits)
  finally show ?thesis .
qed

text \<open>
  The amended claim at three responses with the clock at 940 s and the reset at 1000 s:
  10 remaining (a sleep of 61 s), 11 remaining (no sleep), and 5 remaining with the reset
  2000 s away (no sleep).
\<close>

theorem RoundTrip_proactive_witness:
  "(0::nat) < maxRetries \<and> \<not> rateLimited (quota_response ''10'' ''1000'')
   \<and> pauseNeeded (quota_response ''10'' ''1000'') (940 * Second) = Some (60 * Second)
   \<and> roundTripFrom (quota_env ''10'' ''1000'') 0
       = (Inr (quota_response ''10'' ''1000''), [Sleep (60 * Second + Second)])
   \<and> pauseNeeded (quota_response ''11'' ''1000'') (940 * Second) = None
   \<and> roundTripFrom (quota_env ''11'' ''1000'') 0 = (Inr (quota_response ''11'' ''1000''), [])
   \<and> pauseNeeded (quota_response ''5'' ''2940'') (940 * Second) = None
   \<and> roundTripFrom (quota_env ''5'' ''2940'') 0 = (Inr (quota_response ''5'' ''2940''), [])"
proof -
  have m: "(0::nat) < maxRetries" by (simp add: maxRetries_def)
  have nl: "\<not> rateLimited (quota_response a b)" for a b
    by (simp add: rateLimited_def quota_response_def response_def)
  have base: "baseRoundTrip (quota_env a b) 0 = Inr (quota_response a b)"
      "clock (quota_env a b) 0 = 940 * Second" "\<not> ctxDone (quota_env a b) 0" for a b
    by (simp_all add: quota_env_def)
  have p1: "pauseNeeded (quota_response ''10'' ''1000'') (940 * Second) = Some (60 * Second)"
    by code_simp
  have p2: "pauseNeeded (quota_response ''11'' ''1000'') (940 * Second) = None"
    by code_simp
  have p3: "pauseNeeded (quota_response ''5'' ''2940'') (940 * Second) = None"
    by code_simp
  note inst = RoundTrip_proactive [OF m base(1) nl]
  from inst [of "''10''" "''1000''"] inst [of "''11''" "''1000''"] inst [of "''5''" "''2940''"]
    m nl p1 p2 p3 base(2,3)
  show ?thesis by simp
qed

section \<open>Properties of selectDiverseRepos\<close>

lemma appendTo_indices:
  "set (concat (map snd (appendTo groups lang i))) = insert i (set (concat (map snd groups)))"
  by (induction groups lang i rule: appendTo.induct) auto

lemma groupLangs_indices:
  "x \<in> set (concat (map snd (groupLangs username rs i groups))) \<Longrightarrow>
   x \<in> set (concat (map snd groups))
   \<or> (i \<le> x \<and> x - i < length rs \<and> ownedRepo username (rs ! (x - i)))"
proof (induction rs arbitrary: i groups)
  case Nil
  then show ?case by simp
next
  case (Cons r rs)
  have shift: "i \<le> x \<and> x - i < length (r # rs) \<and> ownedRepo username ((r # rs) ! (x - i))"
    if "i + 1 \<le> x" "x - (i + 1) < length rs" "ownedRepo username (rs ! (x - (i + 1)))"
  proof -
    from that(1) have "x - i = Suc (x - (i + 1))" by arith
    with that show ?thesis by simp
  qed
  show ?case
  proof (cases "Fork r \<or> \<not> EqualFold (OwnerLogin r) username")
    case True
    with Cons.prems have "x \<in> set (concat (map snd (groupLangs username rs (i + 1) groups)))"
      by simp
    from Cons.IH [OF this] shift show ?thesis
      by blast
  next
    case False
    define lang where "lang = (if Language r = [] then ''_none'' else Language r)"
    from False Cons.prems
    have "x \<in> set (concat (map snd (groupLangs username rs (i + 1) (appendTo groups lang i))))"
      by (simp add: lang_def Let_def)
    from Cons.IH [OF this] have "x \<in> insert i (set (concat (map snd groups)))
        \<or> (i + 1 \<le> x \<and> x - (i + 1) < length rs \<and> ownedRepo username (rs ! (x - (i + 1))))"
      by (simp only: appendTo_indices)
    moreover have "ownedRepo username ((r # rs) ! (i - i))"
      using False by (simp add: ownedRepo_def)
    ultimately show ?thesis using shift by auto
  qed
qed

lemma visitGroups_inv:
  "visitGroups gs round budget (sel, added) = (sel', added') \<Longrightarrow>
   \<forall>g \<in> set gs. set g \<subseteq> A \<Longrightarrow> sel \<subseteq> A \<Longrightarrow> finite sel \<Longrightarrow>
   sel' \<subseteq> A \<and> finite sel' \<and> sel \<subseteq> sel' \<and> int (card sel') \<le> max (int (card sel)) budget"
proof (induction gs arbitrary: sel added)
  case Nil
  then show ?case by simp
next
  case (Cons g gs)
  show ?case
  proof (cases "round < length g \<and> int (card sel) < budget")
    case True
    with Cons.prems(1) have v: "visitGroups gs round budget (insert (g ! round) sel, True) = (sel', added')"
      by simp
    from True Cons.prems(2) have "g ! round \<in> A" by auto
    with Cons.prems have "insert (g ! round) sel \<subseteq> A" "finite (insert (g ! round) sel)"
      "\<forall>g \<in> set gs. set g \<subseteq> A"
      by auto
    from Cons.IH [OF v this(3,1,2)]
    have r: "sel' \<subseteq> A" "finite sel'" "insert (g ! round) sel \<subseteq> sel'"
        "int (card sel') \<le> max (int (card (insert (g ! round) sel))) budget"
      by auto
    have "int (card (insert (g ! round) sel)) \<le> int (card sel) + 1"
      using Cons.prems(4) by (simp add: card_insert_if)
    with r True show ?thesis by auto
  next
    case False
    with Cons.prems(1) have v: "visitGroups gs round budget (sel, added) = (sel', added')"
      by auto
    from Cons.prems have "\<forall>g \<in> set gs. set g \<subseteq> A" by simp
    from Cons.IH [OF v this Cons.prems(3,4)] show ?thesis .
  qed
qed

lemma groupsInOrder_subset:
  "g \<in> set (groupsInOrder groups order) \<Longrightarrow> set g \<subseteq> set (concat (map snd groups))"
  by (auto simp: groupsInOrder_def) (metis nth_mem snd_conv surjective_pairing)

lemma roundRobin_inv:
  "set (concat (map snd groups)) \<subseteq> A \<Longrightarrow> sel \<subseteq> A \<Longrightarrow> finite sel \<Longrightarrow>
   roundRobin env groups budget round sel \<subseteq> A
   \<and> finite (roundRobin env groups budget round sel)
   \<and> int (card (roundRobin env groups budget round sel)) \<le> max (int (card sel)) budget"
proof (induction env groups budget round sel rule: roundRobin.induct)
  case (1 env groups budget round sel)
  show ?case
  proof (cases "int (card sel) < budget")
    case False
    with "1.prems" show ?thesis by (subst (1 2 3) roundRobin.simps) simp
  next
    case True
    obtain sel' added where v: "visitGroups (groupsInOrder groups (mapOrder env round)) round budget
        (sel, False) = (sel', added)"
      by (cases "visitGroups (groupsInOrder groups (mapOrder env round)) round budget (sel, False)")
    have "\<forall>g \<in> set (groupsInOrder groups (mapOrder env round)). set g \<subseteq> A"
      using groupsInOrder_subset "1.prems"(1) by blast
    from visitGroups_inv [OF v this "1.prems"(2,3)]
    have inv: "sel' \<subseteq> A" "finite sel'" "int (card sel') \<le> max (int (card sel)) budget"
      by auto
    show ?thesis
    proof (cases added)
      case False
      with True v inv show ?thesis by (subst (1 2 3) roundRobin.simps) simp
    next
      case added: True
      from "1.IH" [OF True v [symmetric] _ "1.prems"(1) inv(1,2)] added
      have "roundRobin env groups budget (round + 1) sel' \<subseteq> A
         \<and> finite (roundRobin env groups budget (round + 1) sel')
         \<and> int (card (roundRobin env groups budget (round + 1) sel')) \<le> max (int (card sel')) budget"
        by simp
      with True v added inv show ?thesis
        by (subst (1 2 3) roundRobin.simps) auto
    qed
  qed
qed


lemma ceil_step:
  fixes n i step :: nat
  assumes "0 < step" and "i < n"
  shows "(n - i + step - 1) div step = Suc ((n - (i + step) + step - 1) div step)"
proof (cases "step \<le> n - i")
  case True
  then have r: "n - (i + step) + step - 1 = n - i - 1" by simp
  from assms have l: "n - i + step - 1 = (n - i - 1) + step" by simp
  have "((n - i - 1) + step) div step = Suc ((n - i - 1) div step)"
    using assms(1) div_add_self2 [of step "n - i - 1"] by simp
  then show ?thesis by (simp only: l r)
next
  case False
  then have z: "n - (i + step) + step - 1 = step - 1" by simp
  have d: "(step - 1) div step = 0" using assms(1) by simp
  have "step * 1 \<le> n - i + step - 1" using assms by simp
  moreover have "n - i + step - 1 < step * Suc 1" using False by simp
  ultimately have "(n - i + step - 1) div step = 1"
    by (intro div_nat_eqI)
  then show ?thesis by (simp only: z d)
qed

lemma spreadSelect_count:
  "distinct U \<Longrightarrow> finite sel \<Longrightarrow> (\<forall>j. i \<le> j \<and> j < length U \<longrightarrow> U ! j \<notin> sel) \<Longrightarrow>
   int (card sel) \<le> K \<Longrightarrow> 0 < step \<Longrightarrow>
   finite (spreadSelect U K step i sel) \<and> sel \<subseteq> spreadSelect U K step i sel
   \<and> spreadSelect U K step i sel \<subseteq> sel \<union> set U
   \<and> int (card (spreadSelect U K step i sel))
       = int (card sel) + min (int ((length U - i + step - 1) div step)) (K - int (card sel))"
proof (induction U K step i sel rule: spreadSelect.induct)
  case (1 U K step i sel)
  show ?case
  proof (cases "i < length U \<and> int (card sel) < K \<and> 0 < step")
    case False
    then have res: "spreadSelect U K step i sel = sel"
      by (subst spreadSelect.simps) auto
    have "min (int ((length U - i + step - 1) div step)) (K - int (card sel)) = 0"
    proof (cases "i < length U")
      case True
      with False "1.prems" have "K - int (card sel) = 0" by auto
      then show ?thesis by simp
    next
      case False
      then have "length U - i + step - 1 = step - 1" by simp
      moreover have "(step - 1) div step = 0" using "1.prems"(5) by simp
      ultimately show ?thesis using "1.prems"(4) by simp
    qed
    with res "1.prems"(2) show ?thesis by simp
  next
    case True
    let ?sel = "insert (U ! i) sel"
    from True have res: "spreadSelect U K step i sel = spreadSelect U K step (i + step) ?sel"
      by (subst spreadSelect.simps) simp
    from True "1.prems"(3) have new: "U ! i \<notin> sel" by auto
    then have card: "card ?sel = Suc (card sel)" using "1.prems"(2) by simp
    have fresh: "\<forall>j. i + step \<le> j \<and> j < length U \<longrightarrow> U ! j \<notin> ?sel"
    proof (intro allI impI)
      fix j assume j: "i + step \<le> j \<and> j < length U"
      with "1.prems"(3) have "U ! j \<notin> sel" by auto
      moreover from j True "1.prems"(1,5) have "U ! j \<noteq> U ! i"
        by (auto simp: nth_eq_iff_index_eq)
      ultimately show "U ! j \<notin> ?sel" by simp
    qed
    from True card have le: "int (card ?sel) \<le> K" by simp
    from "1.IH" [OF True "1.prems"(1) _ fresh le "1.prems"(5)] "1.prems"(2)
    have ih: "finite (spreadSelect U K step (i + step) ?sel)"
        "?sel \<subseteq> spreadSelect U K step (i + step) ?sel"
        "spreadSelect U K step (i + step) ?sel \<subseteq> ?sel \<union> set U"
        "int (card (spreadSelect U K step (i + step) ?sel))
           = int (card ?sel) + min (int ((length U - (i + step) + step - 1) div step))
                                   (K - int (card ?sel))"
      by simp_all
    from True have mem: "U ! i \<in> set U" by simp
    define m' where "m' = (length U - (i + step) + step - 1) div step"
    have M: "(length U - i + step - 1) div step = Suc m'"
      unfolding m'_def using True by (intro ceil_step) simp_all
    from ih(4) have "int (card (spreadSelect U K step (i + step) ?sel))
        = int (card ?sel) + min (int m') (K - int (card ?sel))"
      unfolding m'_def .
    with card have "int (card (spreadSelect U K step (i + step) ?sel))
        = int (card sel) + min (int (Suc m')) (K - int (card sel))"
      by (simp add: min_def)
    then have cnt: "int (card (spreadSelect U K step i sel))
        = int (card sel) + min (int ((length U - i + step - 1) div step)) (K - int (card sel))"
      unfolding M res .
    have sub: "sel \<subseteq> spreadSelect U K step i sel"
        "spreadSelect U K step i sel \<subseteq> sel \<union> set U"
      using ih(2,3) mem unfolding res by auto
    have fin: "finite (spreadSelect U K step i sel)" using ih(1) unfolding res .
    from fin sub cnt show ?thesis by blast
  qed
qed

lemma fillForks_count:
  "distinct xs \<Longrightarrow> finite sel \<Longrightarrow> set xs \<inter> sel = {} \<Longrightarrow> int (card sel) \<le> K \<Longrightarrow>
   finite (fillForks xs K sel) \<and> sel \<subseteq> fillForks xs K sel
   \<and> fillForks xs K sel \<subseteq> sel \<union> set xs
   \<and> int (card (fillForks xs K sel)) = min K (int (card sel) + int (length xs))"
proof (induction xs arbitrary: sel)
  case Nil
  then show ?case by simp
next
  case (Cons x xs)
  show ?case
  proof (cases "int (card sel) \<ge> K")
    case True
    with Cons.prems show ?thesis by auto
  next
    case False
    from Cons.prems have c: "card (insert x sel) = Suc (card sel)" by simp
    from Cons.prems have "distinct xs" "finite (insert x sel)" "set xs \<inter> insert x sel = {}"
      by auto
    moreover from False c have "int (card (insert x sel)) \<le> K" by simp
    ultimately have ih: "finite (fillForks xs K (insert x sel))"
        "insert x sel \<subseteq> fillForks xs K (insert x sel)"
        "fillForks xs K (insert x sel) \<subseteq> insert x sel \<union> set xs"
        "int (card (fillForks xs K (insert x sel)))
           = min K (int (card (insert x sel)) + int (length xs))"
      using Cons.IH [of "insert x sel"] by simp_all
    from False have "fillForks (x # xs) K sel = fillForks xs K (insert x sel)" by simp
    with ih c show ?thesis by auto
  qed
qed


lemma sortSlice_props:
  assumes "permutes srt" and "distinct xs"
  shows "distinct (srt lt xs)" and "set (srt lt xs) = set xs" and "length (srt lt xs) = length xs"
proof -
  from assms(1) have m: "mset (srt lt xs) = mset xs" by (simp add: permutes_def)
  from m assms(2) show "distinct (srt lt xs)" by (metis mset_eq_imp_distinct_iff)
  from m show "set (srt lt xs) = set xs" by (rule mset_eq_setD)
  from m show "length (srt lt xs) = length xs" by (rule mset_eq_length)
qed

lemma langBudget_le:
  assumes "1 \<le> (K::int)"
  shows "(if K sdiv 2 < 1 then 1 else K sdiv 2) \<le> K"
proof -
  from assms have "K sdiv 2 = K div 2" by (simp add: signed_divide_int_def)
  moreover from assms have "K div 2 \<le> K" by presburger
  ultimately show ?thesis using assms by simp
qed

lemma selectIndices_card:
  assumes perm: "permutes (sortSlice env)" and K1: "1 \<le> K" and Kn: "K < int (length repos)"
  shows "selectIndices env repos K username \<subseteq> {0..<length repos}
     \<and> int (card (selectIndices env repos K username)) = K"
proof -
  define n where "n = length repos"
  define A where "A = {i. i < n \<and> ownedRepo username (repos ! i)}"
  define groups where "groups = groupLangs username repos 0 []"
  define budget where "budget = (if K sdiv 2 < 1 then 1 else K sdiv 2)"
  define S2 where "S2 = roundRobin env groups budget 0 {}"
  define U0 where "U0 = filter (\<lambda>i. \<not> (i \<in> S2 \<or> Fork (repos ! i))
                                   \<and> EqualFold (OwnerLogin (repos ! i)) username) [0..<n]"
  define U where "U = sortSlice env (\<lambda>a b. CreatedAt (repos ! a) < CreatedAt (repos ! b)) U0"
  define r where "r = K - int (card S2)"
  define step0 where "step0 = int (length U) div r"
  define step where "step = (if step0 < 1 then 1 else step0)"
  define S3 where "S3 = (if r > 0 \<and> length U > 0 then spreadSelect U K (nat step) 0 S2 else S2)"
  define F0 where "F0 = filter (\<lambda>i. i \<notin> S3 \<and> (Fork (repos ! i)
                                  \<or> \<not> EqualFold (OwnerLogin (repos ! i)) username)) [0..<n]"
  define F where "F = sortSlice env
      (\<lambda>a b. StargazersCount (repos ! a) > StargazersCount (repos ! b)) F0"
  define S4 where "S4 = (if int (card S3) < K then fillForks F K S3 else S3)"
  have unfold: "selectIndices env repos K username = S4"
    unfolding selectIndices_def Let_def S4_def F_def F0_def S3_def step_def step0_def r_def
      U_def U0_def S2_def budget_def groups_def n_def ..
  have finA: "finite A" unfolding A_def by simp
  have An: "A \<subseteq> {0..<n}" unfolding A_def by auto
  have "set (concat (map snd groups)) \<subseteq> A"
  proof
    fix x assume "x \<in> set (concat (map snd groups))"
    from groupLangs_indices [OF this [unfolded groups_def]]
    show "x \<in> A" by (simp add: A_def n_def)
  qed
  from roundRobin_inv [OF this, of "{}" env budget 0]
  have S2: "S2 \<subseteq> A" "finite S2" "int (card S2) \<le> max 0 budget"
    by (simp_all add: S2_def)
  from K1 have "budget \<le> K" unfolding budget_def by (rule langBudget_le)
  with S2(3) K1 have S2K: "int (card S2) \<le> K" by simp
  have U0: "distinct U0" "set U0 = A - S2"
    unfolding U0_def A_def by (auto simp: ownedRepo_def)
  from sortSlice_props [OF perm U0(1)] U0(2)
  have U: "distinct U" "set U = A - S2" "length U = length U0"
    by (simp_all add: U_def)
  from U(1,2) have lenU: "length U = card (A - S2)"
    by (metis distinct_card)
  have cardA: "card A = card S2 + length U"
    using lenU S2(1,2) finA by (simp add: card_Diff_subset card_mono)
  have S3: "finite S3 \<and> S3 \<subseteq> A \<and> int (card S3) \<le> K \<and> (int (card S3) < K \<longrightarrow> S3 = A)"
  proof (cases "r > 0 \<and> length U > 0")
    case False
    then have eq: "S3 = S2" unfolding S3_def by (rule if_not_P)
    have "S2 = A" if "int (card S2) < K"
    proof -
      from that have "r > 0" by (simp add: r_def)
      with False have "length U = 0" by simp
      with cardA have "card A = card S2" by simp
      with S2(1) finA show ?thesis by (simp add: card_subset_eq)
    qed
    with eq S2 S2K show ?thesis by simp
  next
    case True
    then have rpos: "0 < r" and Upos: "0 < length U" by simp_all
    have steppos: "0 < nat step" unfolding step_def by simp
    have fresh: "\<forall>j. 0 \<le> j \<and> j < length U \<longrightarrow> U ! j \<notin> S2"
      using U(2) by (metis DiffD2 nth_mem)
    from True have eq: "S3 = spreadSelect U K (nat step) 0 S2" unfolding S3_def by (rule if_P)
    from spreadSelect_count [OF U(1) S2(2) fresh S2K steppos]
    have sp: "finite S3" "S2 \<subseteq> S3" "S3 \<subseteq> S2 \<union> set U"
        "int (card S3) = int (card S2) + min (int ((length U - 0 + nat step - 1) div nat step)) r"
      unfolding eq r_def by simp_all
    from sp(3) U(2) S2(1) have sub: "S3 \<subseteq> A" by auto
    from sp(4) S2K have le: "int (card S3) \<le> K" unfolding r_def by simp
    have "S3 = A" if lt: "int (card S3) < K"
    proof -
      define c where "c = (length U - 0 + nat step - 1) div nat step"
      from sp(4) have "int (card S3) = int (card S2) + min (int c) (K - int (card S2))"
        unfolding c_def r_def .
      with lt have cr: "int c < r" unfolding r_def by linarith
      have short: "int (length U) < r"
      proof (rule ccontr)
        assume "\<not> int (length U) < r"
        then have ge: "nat r \<le> length U" by simp
        from rpos have s0: "step0 = int (length U div nat r)"
          unfolding step0_def by (simp add: zdiv_int)
        from ge rpos have "1 \<le> length U div nat r"
          by (simp add: Suc_le_eq div_greater_zero_iff)
        with s0 have st: "nat step = length U div nat r"
          unfolding step_def by simp
        have "nat r * nat step \<le> length U" unfolding st by simp
        with steppos have "nat r \<le> length U div nat step"
          by (simp add: less_eq_div_iff_mult_less_eq)
        also have "\<dots> \<le> c" unfolding c_def using steppos by (intro div_le_mono) simp
        finally show False using cr rpos by simp
      qed
      with rpos have "step0 = 0" unfolding step0_def by simp
      then have "nat step = 1" unfolding step_def by simp
      with sp(4) short have "int (card S3) = int (card S2) + int (length U)"
        by simp
      with cardA have "card S3 = card A" by simp
      with sub finA show ?thesis by (simp add: card_subset_eq)
    qed
    with sp(1) sub le show ?thesis by simp
  qed
  have S4: "S4 \<subseteq> {0..<n} \<and> int (card S4) = K"
  proof (cases "int (card S3) < K")
    case False
    with S3 An show ?thesis by (auto simp: S4_def)
  next
    case True
    with S3 have SA: "S3 = A" by simp
    have F0: "distinct F0" "set F0 = {0..<n} - A"
      unfolding F0_def SA A_def by (auto simp: ownedRepo_def)
    from sortSlice_props [OF perm F0(1)] F0(2)
    have F: "distinct F" "set F = {0..<n} - A" "length F = length F0"
      by (simp_all add: F_def)
    from F(1,2) have "length F = card ({0..<n} - A)" by (metis distinct_card)
    with An finA have lenF: "length F = n - card A"
      by (simp add: card_Diff_subset)
    from An have "card A \<le> n" using card_mono [of "{0..<n}" A] by simp
    with lenF have tot: "int (card A) + int (length F) = int n" by simp
    from F(2) have disj: "set F \<inter> S3 = {}" unfolding SA by auto
    from S3 have fin: "finite S3" and leK: "int (card S3) \<le> K" by simp_all
    from fillForks_count [OF F(1) fin disj leK]
    have ff: "fillForks F K S3 \<subseteq> S3 \<union> set F"
        "int (card (fillForks F K S3)) = min K (int (card S3) + int (length F))"
      by simp_all
    from ff(2) tot Kn have "int (card (fillForks F K S3)) = K"
      unfolding SA n_def by simp
    moreover from ff(1) F(2) An have "fillForks F K S3 \<subseteq> {0..<n}" unfolding SA by auto
    ultimately show ?thesis using True by (simp add: S4_def)
  qed
  then show ?thesis unfolding unfold n_def .
qed

lemma length_selected:
  "length (filter (\<lambda>i. i \<in> S) [0..<n]) = card (S \<inter> {0..<n})"
proof -
  have d: "distinct (filter (\<lambda>i. i \<in> S) [0..<n])" by simp
  have s: "set (filter (\<lambda>i. i \<in> S) [0..<n]) = S \<inter> {0..<n}" by auto
  from distinct_card [OF d] show ?thesis unfolding s by simp
qed

lemma insertBy_mset: "mset (insertBy lt x xs) = add_mset x (mset xs)"
  by (induction xs) auto

lemma insertionSort_permutes: "permutes insertionSort"
proof -
  have "mset (insertionSort lt xs) = mset xs" for lt xs
    unfolding insertionSort_def by (induction xs) (simp_all add: insertBy_mset)
  then show ?thesis by (simp add: permutes_def)
qed

text \<open>
  C2. A list of at most \<open>K\<close> repositories is returned unchanged. A longer list gives
  exactly \<open>K\<close> repositories, in whatever order the map of language groups is visited and
  whatever permutation the sort produces. \<open>K\<close> is at least 1: \<open>Config.Validate\<close> refuses a
  smaller \<open>--max-repos\<close> before the crawler is built.
\<close>

theorem selectDiverseRepos_count:
  "(int (length repos) \<le> K \<longrightarrow> selectDiverseRepos env repos K username = repos)
   \<and> (permutes (sortSlice env) \<and> 1 \<le> K \<and> K < int (length repos) \<longrightarrow>
        int (length (selectDiverseRepos env repos K username)) = K)"
proof (intro conjI impI)
  assume "int (length repos) \<le> K"
  then show "selectDiverseRepos env repos K username = repos"
    by (simp add: selectDiverseRepos_def)
next
  assume a: "permutes (sortSlice env) \<and> 1 \<le> K \<and> K < int (length repos)"
  then have sel: "selectIndices env repos K username \<subseteq> {0..<length repos}"
      "int (card (selectIndices env repos K username)) = K"
    using selectIndices_card [of env K repos username] by simp_all
  from sel(1) have "selectIndices env repos K username \<inter> {0..<length repos}
      = selectIndices env repos K username"
    by auto
  with a sel(2) show "int (length (selectDiverseRepos env repos K username)) = K"
    by (simp add: selectDiverseRepos_def length_selected)
qed

text \<open>The theorem at the test list of one owned repository and two forks.\<close>

theorem selectDiverseRepos_count_witness:
  "permutes (sortSlice example_env) \<and> (1::int) \<le> 2 \<and> 2 < int (length forks_example)
   \<and> int (length (selectDiverseRepos example_env forks_example 2 ''user'')) = 2
   \<and> map RepoName (selectDiverseRepos example_env forks_example 2 ''user'')
       = [''owned'', ''fork1'']
   \<and> int (length forks_example) \<le> 3
   \<and> selectDiverseRepos example_env forks_example 3 ''user'' = forks_example"
proof -
  have p: "permutes (sortSlice example_env)"
    using insertionSort_permutes by (simp add: example_env_def)
  have l: "(1::int) \<le> 2 \<and> 2 < int (length forks_example)" "int (length forks_example) \<le> 3"
    by (simp_all add: forks_example_def)
  have names: "map RepoName (selectDiverseRepos example_env forks_example 2 ''user'')
       = [''owned'', ''fork1'']"
    by code_simp
  from selectDiverseRepos_count [of forks_example 2 example_env "''user''"] p l
  have "int (length (selectDiverseRepos example_env forks_example 2 ''user'')) = 2"
    by blast
  moreover from selectDiverseRepos_count [of forks_example 3 example_env "''user''"] l
  have "selectDiverseRepos example_env forks_example 3 ''user'' = forks_example"
    by blast
  ultimately show ?thesis using p l names by blast
qed

section \<open>Properties of spreadIndices\<close>








section \<open>Properties of the refinement loop\<close>

text \<open>
  When the backend answers, each call of the source returns: the imitation, the
  comparison with the score the grader gave, the whole iteration with the scores added
  up in order and divided by the number of held-out reviews, and the refinement.
\<close>

lemma generateDryRunReview_answers:
  assumes "Synthesis persona \<noteq> None"
    and "\<forall>prompt. \<exists>generated. Complete env k dryRunSystemPrompt prompt = Inr generated"
  shows "\<exists>generated. generateDryRunReview env persona ho k = (Returned generated, Suc k)"
proof -
  from assms(1) obtain c where c: "formatPersonaContext persona = Inr c"
    by (auto simp add: formatPersonaContext_def)
  from assms(2) obtain g where
    "Complete env k dryRunSystemPrompt
       (Sprintf env dryRunReviewPrompt
          [StringArg (Username persona), StringArg c, StringArg (HPath ho),
           StringArg (HDiffHunk ho)]) = Inr g"
    by blast
  then show ?thesis
    by (simp add: generateDryRunReview_def c)
qed

lemma compareReviews_answers:
  assumes "\<forall>prompt. \<exists>raw fb. Complete env k compareSystemPrompt prompt = Inr raw
             \<and> parseComparisonResult env raw = Returned \<lparr>score = x, feedback = fb\<rparr>"
  shows "\<exists>fb. compareReviews env ho generated k
            = (Returned \<lparr>score = x, feedback = fb\<rparr>, Suc k)"
proof -
  from assms obtain raw fb where
    "Complete env k compareSystemPrompt
       (Sprintf env comparePrompt
          [StringArg (HPath ho), StringArg (HDiffHunk ho), StringArg (HBody ho),
           StringArg generated]) = Inr raw"
    "parseComparisonResult env raw = Returned \<lparr>score = x, feedback = fb\<rparr>"
    by blast
  then show ?thesis
    by (simp add: compareReviews_def)
qed

lemma upt_Suc_shift: "map f [0..<Suc n] = f 0 # map (f \<circ> Suc) [0..<n]"
  by (simp only: upt_conv_Cons [of 0 "Suc n"] map_Suc_upt [symmetric]) simp

lemma iterationLoop_answers:
  assumes "Synthesis persona \<noteq> None"
    and "\<forall>s < length hos. \<forall>prompt.
           \<exists>generated. Complete env (k + 2 * s) dryRunSystemPrompt prompt = Inr generated"
    and "\<forall>s < length hos. \<forall>prompt.
           \<exists>raw fb. Complete env (k + 2 * s + 1) compareSystemPrompt prompt = Inr raw
             \<and> parseComparisonResult env raw = Returned \<lparr>score = f s, feedback = fb\<rparr>"
  shows "\<exists>pairs' parts'.
           iterationLoop env persona hos (pairs, totalScore, feedbackParts) k
             = (Returned (pairs @ pairs',
                          foldl float64_add totalScore (map f [0..<length hos]),
                          feedbackParts @ parts'), k + 2 * length hos)
           \<and> map Original pairs' = map HBody hos
           \<and> map PScore pairs' = map f [0..<length hos]"
  using assms(2,3)
proof (induction hos arbitrary: pairs totalScore feedbackParts k f)
  case Nil
  show ?case by simp
next
  case (Cons ho hos)
  from Cons.prems(1) have "\<forall>prompt.
      \<exists>generated. Complete env k dryRunSystemPrompt prompt = Inr generated"
    by fastforce
  from generateDryRunReview_answers [OF assms(1) this]
  obtain g where g: "generateDryRunReview env persona ho k = (Returned g, Suc k)"
    by blast
  from Cons.prems(2) have "\<forall>prompt.
      \<exists>raw fb. Complete env (Suc k) compareSystemPrompt prompt = Inr raw
        \<and> parseComparisonResult env raw = Returned \<lparr>score = f 0, feedback = fb\<rparr>"
    by fastforce
  from compareReviews_answers [OF this]
  obtain fb where c: "compareReviews env ho g (Suc k)
                        = (Returned \<lparr>score = f 0, feedback = fb\<rparr>, Suc (Suc k))"
    by blast
  have a1: "\<forall>s < length hos. \<forall>prompt.
           \<exists>generated. Complete env (Suc (Suc k) + 2 * s) dryRunSystemPrompt prompt
             = Inr generated"
  proof (intro allI impI)
    fix s prompt assume "s < length hos"
    then have "Suc s < length (ho # hos)" by simp
    with Cons.prems(1) have "\<exists>generated.
        Complete env (k + 2 * Suc s) dryRunSystemPrompt prompt = Inr generated"
      by blast
    then show "\<exists>generated. Complete env (Suc (Suc k) + 2 * s) dryRunSystemPrompt prompt
             = Inr generated"
      by simp
  qed
  have a2: "\<forall>s < length hos. \<forall>prompt.
           \<exists>raw fb. Complete env (Suc (Suc k) + 2 * s + 1) compareSystemPrompt prompt = Inr raw
             \<and> parseComparisonResult env raw
                 = Returned \<lparr>score = (f \<circ> Suc) s, feedback = fb\<rparr>"
  proof (intro allI impI)
    fix s prompt assume "s < length hos"
    then have "Suc s < length (ho # hos)" by simp
    with Cons.prems(2) have "\<exists>raw fb.
        Complete env (k + 2 * Suc s + 1) compareSystemPrompt prompt = Inr raw
        \<and> parseComparisonResult env raw = Returned \<lparr>score = f (Suc s), feedback = fb\<rparr>"
      by blast
    then show "\<exists>raw fb. Complete env (Suc (Suc k) + 2 * s + 1) compareSystemPrompt prompt
                 = Inr raw
             \<and> parseComparisonResult env raw
                 = Returned \<lparr>score = (f \<circ> Suc) s, feedback = fb\<rparr>"
      by simp
  qed
  let ?pair = "\<lparr>Original = HBody ho, Generated = g, PPath = HPath ho, PScore = f 0\<rparr>"
  from Cons.IH [OF a1 a2, of "pairs @ [?pair]" "float64_add totalScore (f 0)"
                  "feedbackParts @ [fb]"]
  obtain pairs' parts' where
    r: "iterationLoop env persona hos
          (pairs @ [?pair], float64_add totalScore (f 0), feedbackParts @ [fb]) (Suc (Suc k))
        = (Returned ((pairs @ [?pair]) @ pairs',
                     foldl float64_add (float64_add totalScore (f 0))
                       (map (f \<circ> Suc) [0..<length hos]),
                     (feedbackParts @ [fb]) @ parts'), Suc (Suc k) + 2 * length hos)"
    and o: "map Original pairs' = map HBody hos"
    and p: "map PScore pairs' = map (f \<circ> Suc) [0..<length hos]"
    by blast
  have "iterationLoop env persona (ho # hos) (pairs, totalScore, feedbackParts) k
          = (Returned (pairs @ (?pair # pairs'),
                       foldl float64_add totalScore (map f [0..<length (ho # hos)]),
                       feedbackParts @ (fb # parts')), k + 2 * length (ho # hos))"
    by (simp add: g c r upt_Suc_shift del: upt_Suc)
  moreover have "map Original (?pair # pairs') = map HBody (ho # hos)"
    by (simp add: o)
  moreover have "map PScore (?pair # pairs') = map f [0..<length (ho # hos)]"
    by (simp add: p upt_Suc_shift del: upt_Suc)
  ultimately show ?case by blast
qed

lemma runIteration_answers:
  assumes "Synthesis persona \<noteq> None"
    and "\<forall>s < length heldOut. \<forall>prompt.
           \<exists>generated. Complete env (k + 2 * s) dryRunSystemPrompt prompt = Inr generated"
    and "\<forall>s < length heldOut. \<forall>prompt.
           \<exists>raw fb. Complete env (k + 2 * s + 1) compareSystemPrompt prompt = Inr raw
             \<and> parseComparisonResult env raw = Returned \<lparr>score = f s, feedback = fb\<rparr>"
  shows "\<exists>r. runIteration env persona heldOut iter k = (Returned r, k + 2 * length heldOut)
           \<and> Iteration r = iter
           \<and> Score r = float64_div
                          (foldl float64_add (Num (F64 0 0)) (map f [0..<length heldOut]))
                          (float64_of_int (int (length heldOut)))
           \<and> map Original (Pairs r) = map HBody heldOut
           \<and> map PScore (Pairs r) = map f [0..<length heldOut]"
proof -
  from iterationLoop_answers [OF assms, of "[]" "Num (F64 0 0)" "[]"]
  obtain pairs' parts' where
    "iterationLoop env persona heldOut ([], Num (F64 0 0), []) k
       = (Returned ([] @ pairs',
                    foldl float64_add (Num (F64 0 0)) (map f [0..<length heldOut]),
                    [] @ parts'), k + 2 * length heldOut)"
    "map Original pairs' = map HBody heldOut"
    "map PScore pairs' = map f [0..<length heldOut]"
    by blast
  then show ?thesis
    by (simp add: runIteration_def)
qed

lemma refinePersona_answers:
  assumes "Synthesis persona \<noteq> None"
    and "\<forall>prompt. \<exists>raw synthesis. Complete env k refineSystemPrompt prompt = Inr raw
           \<and> ParseSynthesis (json env) raw = Inr (Inr synthesis)"
  shows "\<exists>refined. refinePersona env persona r k = (Returned refined, Suc k)
           \<and> Synthesis refined \<noteq> None"
proof -
  from assms(1) obtain s where s: "Synthesis persona = Some s" by auto
  let ?prompt = "Sprintf env refinePrompt
       [StringArg (Username persona), FloatArg (Score r),
        StringArg (CodingPhilosophy s), StringArg (CodeStyleRules s),
        StringArg (ReviewPriorities s), StringArg (ReviewVoice s),
        StringArg (CommunicationPatterns s), StringArg (TestingPhilosophy s),
        StringArg (DistinctiveTraits s), StringArg (DeveloperInterests s),
        StringArg (ProjectPatterns s), StringArg (CollaborationStyle s),
        StringArg (Feedback r), StringArg (pairsSummary env (Pairs r))]"
  from assms(2) obtain raw synthesis where
    "Complete env k refineSystemPrompt ?prompt = Inr raw"
    "ParseSynthesis (json env) raw = Inr (Inr synthesis)"
    by blast
  then show ?thesis
    by (simp add: refinePersona_def s)
qed


lemma recorded_snoc:
  assumes "recorded \<sigma> heldOut H"
    and "Iteration r = int (length H) + 1"
    and "map Original (Pairs r) = map HBody heldOut"
    and "map PScore (Pairs r) = map (\<sigma> (Suc (length H))) [0..<length heldOut]"
    and "Score r = averageScore \<sigma> (length heldOut) (Suc (length H))"
  shows "recorded \<sigma> heldOut (H @ [r])"
  using assms
  unfolding recorded_def
  by (auto simp add: nth_append less_Suc_eq)

lemma runLoop_past_end:
  "runLoop env heldOut 6 result current k = (Returned (result, Some current), k)"
  by (subst runLoop.simps) (simp add: MaxIterations_def)

lemma runLoop_step:
  assumes "iter \<le> MaxIterations"
    and "runIteration env current heldOut iter k = (Returned r, k1)"
  shows "runLoop env heldOut iter result current k =
           (if float64_ge (Score r) TargetScore
            then (Returned (result\<lparr>History := History result @ [r], FinalScore := Score r,
                                   Iterations := iter\<rparr>, Some current), k1)
            else if iter < MaxIterations then
              (case refinePersona env current r k1 of
                 (Panicked p, k2) \<Rightarrow> (Panicked p, k2)
               | (Failed err, k2) \<Rightarrow> (Failed (RefiningPersona iter err), k2)
               | (Returned refined, k2) \<Rightarrow>
                   runLoop env heldOut (iter + 1)
                     (result\<lparr>History := History result @ [r], FinalScore := Score r,
                             Iterations := iter\<rparr>) refined k2)
            else runLoop env heldOut (iter + 1)
                   (result\<lparr>History := History result @ [r], FinalScore := Score r,
                           Iterations := iter\<rparr>) current k1)"
  using assms by (subst runLoop.simps) (simp add: Let_def)

lemma runLoop_answers:
  assumes ga: "graderAnswers env (length heldOut) \<sigma>"
  shows "jj < 5 \<Longrightarrow> Synthesis current \<noteq> None \<Longrightarrow> length (History result) = jj
    \<Longrightarrow> recorded \<sigma> heldOut (History result)
    \<Longrightarrow> (\<forall>i < jj. \<not> reachesTarget \<sigma> (length heldOut) (Suc i))
    \<Longrightarrow> \<exists>res p M.
          runLoop env heldOut (int jj + 1) result current (jj * (2 * length heldOut + 1))
            = (Returned (res, Some p), Suc M * (2 * length heldOut) + M)
          \<and> M < 5
          \<and> Iterations res = int M + 1
          \<and> length (History res) = Suc M
          \<and> recorded \<sigma> heldOut (History res)
          \<and> FinalScore res = averageScore \<sigma> (length heldOut) (Suc M)
          \<and> (\<forall>i < M. \<not> reachesTarget \<sigma> (length heldOut) (Suc i))
          \<and> (M < 4 \<longrightarrow> reachesTarget \<sigma> (length heldOut) (Suc M))"
proof (induction "4 - jj" arbitrary: jj result current)
  case 0
  then have jj: "jj = 4" by simp
  let ?n = "length heldOut"
  let ?k = "jj * (2 * ?n + 1)"
  have g: "\<forall>s < ?n. \<forall>prompt.
           \<exists>generated. Complete env (?k + 2 * s) dryRunSystemPrompt prompt = Inr generated"
    using ga "0.prems"(1) unfolding graderAnswers_def by blast
  have c: "\<forall>s < ?n. \<forall>prompt.
           \<exists>raw fb. Complete env (?k + 2 * s + 1) compareSystemPrompt prompt = Inr raw
             \<and> parseComparisonResult env raw
                 = Returned \<lparr>score = \<sigma> (Suc jj) s, feedback = fb\<rparr>"
    using ga "0.prems"(1) unfolding graderAnswers_def by simp
  from runIteration_answers [OF "0.prems"(2) g c, of "int jj + 1"]
  obtain r where r: "runIteration env current heldOut (int jj + 1) ?k
                       = (Returned r, ?k + 2 * ?n)"
    and r1: "Iteration r = int jj + 1"
    and r2: "Score r = averageScore \<sigma> ?n (Suc jj)"
    and r3: "map Original (Pairs r) = map HBody heldOut"
    and r4: "map PScore (Pairs r) = map (\<sigma> (Suc jj)) [0..<?n]"
    unfolding averageScore_def by blast
  let ?res = "result\<lparr>History := History result @ [r], FinalScore := Score r,
                      Iterations := int jj + 1\<rparr>"
  have rec: "recorded \<sigma> heldOut (History ?res)"
    using recorded_snoc [OF "0.prems"(4), of r] r1 r2 r3 r4 "0.prems"(3) by simp
  have k: "?k + 2 * ?n = Suc jj * (2 * ?n) + jj" by simp
  have le: "int jj + 1 \<le> MaxIterations" and nl: "\<not> int jj + 1 < MaxIterations"
    and six: "int jj + 1 + 1 = 6"
    using jj by (simp_all add: MaxIterations_def)
  have run: "runLoop env heldOut (int jj + 1) result current ?k
               = (Returned (?res, Some current), ?k + 2 * ?n)"
    unfolding runLoop_step [OF le r] six runLoop_past_end using nl by simp
  show ?case
    apply (rule exI [of _ ?res], rule exI [of _ current], rule exI [of _ jj])
    using run rec r2 "0.prems"(3,5) jj k by simp
next
  case (Suc m)
  then have jj: "jj < 4" by simp
  have le: "int jj + 1 \<le> MaxIterations" and lt: "int jj + 1 < MaxIterations"
    using jj by (simp_all add: MaxIterations_def)
  let ?n = "length heldOut"
  let ?k = "jj * (2 * ?n + 1)"
  have g: "\<forall>s < ?n. \<forall>prompt.
           \<exists>generated. Complete env (?k + 2 * s) dryRunSystemPrompt prompt = Inr generated"
    using ga Suc.prems(1) unfolding graderAnswers_def by blast
  have c: "\<forall>s < ?n. \<forall>prompt.
           \<exists>raw fb. Complete env (?k + 2 * s + 1) compareSystemPrompt prompt = Inr raw
             \<and> parseComparisonResult env raw
                 = Returned \<lparr>score = \<sigma> (Suc jj) s, feedback = fb\<rparr>"
    using ga Suc.prems(1) unfolding graderAnswers_def by simp
  from runIteration_answers [OF Suc.prems(2) g c, of "int jj + 1"]
  obtain r where r: "runIteration env current heldOut (int jj + 1) ?k
                       = (Returned r, ?k + 2 * ?n)"
    and r1: "Iteration r = int jj + 1"
    and r2: "Score r = averageScore \<sigma> ?n (Suc jj)"
    and r3: "map Original (Pairs r) = map HBody heldOut"
    and r4: "map PScore (Pairs r) = map (\<sigma> (Suc jj)) [0..<?n]"
    unfolding averageScore_def by blast
  let ?res = "result\<lparr>History := History result @ [r], FinalScore := Score r,
                      Iterations := int jj + 1\<rparr>"
  have rec: "recorded \<sigma> heldOut (History ?res)"
    using recorded_snoc [OF Suc.prems(4), of r] r1 r2 r3 r4 Suc.prems(3) by simp
  have k: "?k + 2 * ?n = Suc jj * (2 * ?n) + jj" by simp
  show ?case
  proof (cases "reachesTarget \<sigma> ?n (Suc jj)")
    case True
    then have ge: "float64_ge (Score r) TargetScore"
      by (simp add: reachesTarget_def r2)
    have run: "runLoop env heldOut (int jj + 1) result current ?k
                 = (Returned (?res, Some current), ?k + 2 * ?n)"
      unfolding runLoop_step [OF le r] using ge by simp
    show ?thesis
      apply (rule exI [of _ ?res], rule exI [of _ current], rule exI [of _ jj])
      using run rec r2 Suc.prems(1,3,5) True k by simp
  next
    case False
    then have ge: "\<not> float64_ge (Score r) TargetScore"
      by (simp add: reachesTarget_def r2)
    have "\<forall>prompt. \<exists>raw synthesis.
            Complete env (?k + 2 * ?n) refineSystemPrompt prompt = Inr raw
            \<and> ParseSynthesis (json env) raw = Inr (Inr synthesis)"
      using ga jj unfolding graderAnswers_def by blast
    from refinePersona_answers [OF Suc.prems(2) this, of r]
    obtain refined where f: "refinePersona env current r (?k + 2 * ?n)
                               = (Returned refined, Suc (?k + 2 * ?n))"
      and f1: "Synthesis refined \<noteq> None"
      by blast
    have k': "Suc (?k + 2 * ?n) = Suc jj * (2 * ?n + 1)" by simp
    have nx: "int jj + 1 + 1 = int (Suc jj) + 1" by simp
    have run: "runLoop env heldOut (int jj + 1) result current ?k
                 = runLoop env heldOut (int (Suc jj) + 1) ?res refined
                     (Suc jj * (2 * ?n + 1))"
      unfolding runLoop_step [OF le r] f nx k' using ge lt by simp
    have m: "m = 4 - Suc jj" using Suc.hyps(2) by simp
    have jj': "Suc jj < 5" using jj by simp
    have len: "length (History ?res) = Suc jj" using Suc.prems(3) by simp
    have nr: "\<forall>i < Suc jj. \<not> reachesTarget \<sigma> ?n (Suc i)"
      using Suc.prems(5) False by (simp add: less_Suc_eq)
    from Suc.hyps(1) [OF m jj' f1 len rec nr]
    show ?thesis unfolding run .
  qed
qed

lemma expectedIterations_eq:
  assumes "M < 5" and "\<forall>i < M. \<not> reachesTarget \<sigma> n (Suc i)"
    and "M < 4 \<longrightarrow> reachesTarget \<sigma> n (Suc M)"
  shows "expectedIterations \<sigma> n = Suc M"
proof -
  from assms(1) have "M = 0 \<or> M = 1 \<or> M = 2 \<or> M = 3 \<or> M = 4" by presburger
  then show ?thesis
    using assms(2,3)
    by (elim disjE) (simp_all add: expectedIterations_def less_Suc_eq numeral_eq_Suc)
qed

text \<open>
  The completion of the refinement goes to \<open>ParseSynthesis\<close> as it is: when it is empty
  or blank, \<open>refinePersona\<close> panics.
\<close>

lemma refinePersona_panics_on_blank:
  assumes "Synthesis persona = Some s"
    and "\<forall>prompt. Complete env k refineSystemPrompt prompt = Inr raw"
    and "TrimSpace raw = []"
  shows "refinePersona env persona r k = (Panicked IndexOutOfRange, Suc k)"
  using assms by (simp add: refinePersona_def ParseSynthesis_def)

text \<open>
  Claim C1. Let \<open>Run\<close> be called with a persona that has a synthesis and with \<open>n > 0\<close>
  held-out reviews, and let the backend answer every call, the grader giving the score
  \<open>\<sigma> j s\<close> to review \<open>s\<close> in iteration \<open>j\<close>. Let \<open>N\<close> be the smaller of 5 and the index of the
  first iteration whose average score, computed in \<open>float64\<close> as the code computes it, is
  greater than or equal to 80.0. Then \<open>N\<close> is between 1 and 5, no iteration before \<open>N\<close>
  reaches the target, and iteration \<open>N\<close> reaches it unless \<open>N = 5\<close>. \<open>Run\<close> returns a result
  and a persona after exactly \<open>N\<close> iterations: it has made the \<open>2 * n\<close> calls of each of
  them and the \<open>N - 1\<close> refinements between them; \<open>Result.Iterations\<close> and the length of
  \<open>Result.History\<close> are \<open>N\<close>, the history holds for each iteration its number, the score
  of every held-out review and their average, and \<open>Result.FinalScore\<close> is the average of
  iteration \<open>N\<close>.
\<close>

theorem Run_iterations:
  assumes "heldOut \<noteq> []" and "Synthesis persona \<noteq> None"
    and "graderAnswers env (length heldOut) \<sigma>"
  shows "let n = length heldOut; N = expectedIterations \<sigma> n in
         1 \<le> N \<and> N \<le> 5
         \<and> (\<forall>i. 1 \<le> i \<and> i < N \<longrightarrow> \<not> reachesTarget \<sigma> n i)
         \<and> (N < 5 \<longrightarrow> reachesTarget \<sigma> n N)
         \<and> (\<exists>res p. Run env (Some persona) heldOut 0
                       = (Returned (res, Some p), N * (2 * n) + (N - 1))
               \<and> Iterations res = int N
               \<and> length (History res) = N
               \<and> recorded \<sigma> heldOut (History res)
               \<and> FinalScore res = averageScore \<sigma> n N)"
proof -
  let ?n = "length heldOut"
  let ?r0 = "\<lparr>FinalScore = Num (F64 0 0), Iterations = 0, History = []\<rparr>"
  have "recorded \<sigma> heldOut (History ?r0)" by (simp add: recorded_def)
  from runLoop_answers [OF assms(3), of 0 persona ?r0, OF _ assms(2) _ this]
  obtain res p M where
    run: "runLoop env heldOut 1 ?r0 persona 0
            = (Returned (res, Some p), Suc M * (2 * ?n) + M)"
    and M: "M < 5"
    and it: "Iterations res = int M + 1"
    and len: "length (History res) = Suc M"
    and rec: "recorded \<sigma> heldOut (History res)"
    and fs: "FinalScore res = averageScore \<sigma> ?n (Suc M)"
    and below: "\<forall>i < M. \<not> reachesTarget \<sigma> ?n (Suc i)"
    and reach: "M < 4 \<longrightarrow> reachesTarget \<sigma> ?n (Suc M)"
    by auto
  have N: "expectedIterations \<sigma> ?n = Suc M"
    by (rule expectedIterations_eq [OF M below reach])
  have b: "\<forall>i. 1 \<le> i \<and> i < Suc M \<longrightarrow> \<not> reachesTarget \<sigma> ?n i"
  proof (intro allI impI)
    fix i assume "1 \<le> i \<and> i < Suc M"
    then have "i - 1 < M" "Suc (i - 1) = i" by linarith+
    with below show "\<not> reachesTarget \<sigma> ?n i" by metis
  qed
  have "Run env (Some persona) heldOut 0 = (Returned (res, Some p), Suc M * (2 * ?n) + M)"
    using assms(1) run by (simp add: Run_def)
  then show ?thesis
    unfolding Let_def N using M it len rec fs b reach by auto
qed


text \<open>
  The example backend: the first iteration averages 60, the second 90, so \<open>Run\<close> stops
  after two iterations and nine calls.
\<close>

lemma example_parse60:
  "parseComparisonResult example_backend (comparisonText ''60'' ''too formal'')
     = Returned \<lparr>score = float64_of_int 60, feedback = ''too formal''\<rparr>"
  by code_simp

lemma example_parse90:
  "parseComparisonResult example_backend (comparisonText ''90'' ''close'')
     = Returned \<lparr>score = float64_of_int 90, feedback = ''close''\<rparr>"
  by code_simp

lemma example_refined:
  "ParseSynthesis (json example_backend) ''{}'' = Inr (Inr emptySynthesis)"
  by code_simp

lemma example_graderAnswers: "graderAnswers example_backend 2 example_scores"
proof -
  have c: "Complete example_backend k compareSystemPrompt prompt
             = Inr (if k < 5 then comparisonText ''60'' ''too formal''
                    else comparisonText ''90'' ''close'')" for k prompt
    by (simp add: example_backend_def)
  have g: "Complete example_backend k dryRunSystemPrompt prompt = Inr ''nit: wrap the error''"
    for k prompt
    by (simp add: example_backend_def)
  have r: "Complete example_backend k refineSystemPrompt prompt = Inr ''{}''" for k prompt
    by (simp add: example_backend_def)
  have p: "\<exists>fb. parseComparisonResult example_backend
                   (if j * (2 * 2 + 1) + 2 * s + 1 < 5 then comparisonText ''60'' ''too formal''
                    else comparisonText ''90'' ''close'')
                 = Returned \<lparr>score = example_scores (j + 1) s, feedback = fb\<rparr>"
    if "s < 2" for j s :: nat
  proof (cases "j = 0")
    case True
    with that have "j * (2 * 2 + 1) + 2 * s + 1 < 5" by simp
    then show ?thesis
      by (simp add: example_parse60 example_scores_def True)
  next
    case False
    then show ?thesis
      by (simp add: example_parse90 example_scores_def)
  qed
  show ?thesis
    unfolding graderAnswers_def
  proof (intro conjI allI impI)
    fix j s :: nat and prompt
    show "\<exists>generated. Complete example_backend (j * (2 * 2 + 1) + 2 * s) dryRunSystemPrompt prompt
                         = Inr generated"
      by (simp add: g)
  next
    fix j s :: nat and prompt
    assume "s < 2"
    from p [OF this, of j] obtain fb where
      "parseComparisonResult example_backend
         (if j * (2 * 2 + 1) + 2 * s + 1 < 5 then comparisonText ''60'' ''too formal''
          else comparisonText ''90'' ''close'')
       = Returned \<lparr>score = example_scores (j + 1) s, feedback = fb\<rparr>"
      by blast
    with c [of "j * (2 * 2 + 1) + 2 * s + 1" prompt]
    show "\<exists>raw fb. Complete example_backend (j * (2 * 2 + 1) + 2 * s + 1) compareSystemPrompt prompt
                      = Inr raw
               \<and> parseComparisonResult example_backend raw
                   = Returned \<lparr>score = example_scores (j + 1) s, feedback = fb\<rparr>"
      by blast
  next
    fix j :: nat and prompt
    show "\<exists>raw synthesis.
            Complete example_backend (j * (2 * 2 + 1) + 2 * 2) refineSystemPrompt prompt = Inr raw
            \<and> ParseSynthesis (json example_backend) raw = Inr (Inr synthesis)"
      using r [of "j * (2 * 2 + 1) + 2 * 2" prompt] example_refined by blast
  qed
qed

lemma example_expected: "expectedIterations example_scores 2 = 2"
  by code_simp

lemma example_average: "averageScore example_scores 2 2 = float64_of_int 90"
  by code_simp

theorem Run_iterations_witness:
  "expectedIterations example_scores 2 = 2
   \<and> (\<exists>res p. Run example_backend (Some example_persona) example_heldOut 0
                = (Returned (res, Some p), 9)
        \<and> Iterations res = 2
        \<and> length (History res) = 2
        \<and> FinalScore res = float64_of_int 90)"
proof -
  have n: "length example_heldOut = 2" and ne: "example_heldOut \<noteq> []"
    by (simp_all add: example_heldOut_def)
  have s: "Synthesis example_persona \<noteq> None"
    by (simp add: example_persona_def)
  from Run_iterations [of example_heldOut example_persona example_backend example_scores,
                        OF ne s, unfolded n, OF example_graderAnswers]
  show ?thesis
    unfolding Let_def example_expected example_average by auto
qed

end
